theory Spec2Isabelle
  imports Complex_Main "HOL-Library.AList"
begin

section \<open>Strings and characters\<close>

text \<open>
  A JavaScript string is modelled as a \<open>string\<close> whose characters are the code units
  0..255 (the Latin-1 range); \<open>length\<close> is then the number of code units, as
  \<open>String.prototype.length\<close> counts them.
\<close>

definition code :: "char \<Rightarrow> nat" where
  "code c = of_char c"

definition in_range :: "char \<Rightarrow> char \<Rightarrow> char \<Rightarrow> bool" where
  "in_range lo hi c = (code lo \<le> code c \<and> code c \<le> code hi)"

text \<open>The class \<open>\w\<close> of a regular expression: \<open>[A-Za-z0-9_]\<close>.\<close>

definition is_word :: "char \<Rightarrow> bool" where
  "is_word c = (in_range CHR ''a'' CHR ''z'' c \<or> in_range CHR ''A'' CHR ''Z'' c
     \<or> in_range CHR ''0'' CHR ''9'' c \<or> c = CHR ''_'')"

text \<open>
  The class \<open>\s\<close>, which is also what \<open>String.prototype.trim\<close> strips: tab, line feed,
  vertical tab, form feed, carriage return, space and the no-break space (the white space
  and line terminators below code unit 256).
\<close>

definition is_space :: "char \<Rightarrow> bool" where
  "is_space c = (code c \<in> {9, 10, 11, 12, 13, 32, 160})"

text \<open>The dot of a regular expression matches everything but a line terminator.\<close>

definition is_line_terminator :: "char \<Rightarrow> bool" where
  "is_line_terminator c = (code c = 10 \<or> code c = 13)"

text \<open>
  \<open>toLowerCase\<close> and \<open>toUpperCase\<close> on one code unit: the ASCII letters and the
  Latin-1 letters (\<open>0xC0..0xDE\<close> without the multiplication sign, \<open>0xE0..0xFE\<close> without
  the division sign). The upper-case forms of \<open>0xB5\<close>, \<open>0xDF\<close> and \<open>0xFF\<close> lie outside
  the range, so \<open>to_upper\<close> leaves them, as the canonicalisation of a case-insensitive
  regular expression does.
\<close>

definition to_lower :: "char \<Rightarrow> char" where
  "to_lower c = (if (65 \<le> code c \<and> code c \<le> 90) \<or> (192 \<le> code c \<and> code c \<le> 222 \<and> code c \<noteq> 215)
     then char_of (code c + 32) else c)"

definition to_upper :: "char \<Rightarrow> char" where
  "to_upper c = (if (97 \<le> code c \<and> code c \<le> 122) \<or> (224 \<le> code c \<and> code c \<le> 254 \<and> code c \<noteq> 247)
     then char_of (code c - 32) else c)"

definition toLowerCase :: "string \<Rightarrow> string" where
  "toLowerCase s = map to_lower s"

text \<open>\<open>s.startsWith(p)\<close>.\<close>

fun startsWith :: "string \<Rightarrow> string \<Rightarrow> bool" where
  "startsWith s [] = True"
| "startsWith [] (p # ps) = False"
| "startsWith (c # cs) (p # ps) = (c = p \<and> startsWith cs ps)"

text \<open>\<open>s.includes(p)\<close>: \<open>p\<close> occurs in \<open>s\<close> at some position.\<close>

fun str_includes :: "string \<Rightarrow> string \<Rightarrow> bool" where
  "str_includes [] p = (p = [])"
| "str_includes (c # cs) p = (startsWith (c # cs) p \<or> str_includes cs p)"

text \<open>\<open>s.trim()\<close>.\<close>

definition trim :: "string \<Rightarrow> string" where
  "trim s = rev (dropWhile is_space (rev (dropWhile is_space s)))"

section \<open>Regular expressions\<close>

text \<open>
  The regular expressions of the source are values of \<open>re\<close>, and \<open>ms\<close> is a backtracking
  matcher: it returns the states a pattern can reach from a state, in the order in which
  the engine tries them (greedy quantifiers first take as much as they can, the left
  alternative comes before the right one). The first state of the list is the match that
  the engine reports. A state is the index reached, the rest of the input and the
  captures made so far (the latest first).
\<close>

datatype item = C char | R char char | W | S

datatype re =
    Lit string
  | Cls "item list"
  | NCls "item list"
  | Dot
  | Bol
  | Seq re re
  | Alt re re
  | Star re
  | Plus re
  | Opt re
  | Times nat re
  | Grp nat re

type_synonym mstate = "nat \<times> string \<times> (nat \<times> string) list"

fun in_item :: "item \<Rightarrow> char \<Rightarrow> bool" where
  "in_item (C a) c = (c = a)"
| "in_item (R lo hi) c = in_range lo hi c"
| "in_item W c = is_word c"
| "in_item S c = is_space c"

text \<open>
  With the flag \<open>i\<close> a character is in a class when some member of the class has the same
  canonical (upper-case) form; the members with the canonical form of \<open>c\<close> are \<open>c\<close>
  itself and its two case forms.
\<close>

definition in_class :: "bool \<Rightarrow> item list \<Rightarrow> char \<Rightarrow> bool" where
  "in_class ic its c =
     (if ic then list_ex (\<lambda>it. in_item it c \<or> in_item it (to_upper c) \<or> in_item it (to_lower c)) its
      else list_ex (\<lambda>it. in_item it c) its)"

definition chr_eq :: "bool \<Rightarrow> char \<Rightarrow> char \<Rightarrow> bool" where
  "chr_eq ic a c = (if ic then to_upper a = to_upper c else a = c)"

fun lit :: "bool \<Rightarrow> string \<Rightarrow> mstate \<Rightarrow> mstate list" where
  "lit ic [] st = [st]"
| "lit ic (a # as) (i, [], caps) = []"
| "lit ic (a # as) (i, c # cs, caps) = (if chr_eq ic a c then lit ic as (Suc i, cs, caps) else [])"

fun one :: "(char \<Rightarrow> bool) \<Rightarrow> mstate \<Rightarrow> mstate list" where
  "one p (i, [], caps) = []"
| "one p (i, c # cs, caps) = (if p c then [(Suc i, cs, caps)] else [])"

definition rest_len :: "mstate \<Rightarrow> nat" where
  "rest_len st = length (fst (snd st))"

text \<open>
  A greedy \<open>*\<close>: one more iteration first, then stopping here. An iteration that consumes
  nothing is rejected (the engine's empty check), so at most \<open>rest_len st\<close> iterations
  follow one another, which is the bound \<open>n\<close> that \<open>ms\<close> passes.
\<close>

primrec iter :: "(mstate \<Rightarrow> mstate list) \<Rightarrow> nat \<Rightarrow> mstate \<Rightarrow> mstate list" where
  "iter f 0 st = [st]"
| "iter f (Suc n) st =
     concat (map (\<lambda>st'. if rest_len st' < rest_len st then iter f n st' else []) (f st)) @ [st]"

text \<open>The counted repetition \<open>{n}\<close>.\<close>

primrec repeat_n :: "(mstate \<Rightarrow> mstate list) \<Rightarrow> nat \<Rightarrow> mstate \<Rightarrow> mstate list" where
  "repeat_n f 0 st = [st]"
| "repeat_n f (Suc n) st = concat (map (repeat_n f n) (f st))"

definition capture :: "nat \<Rightarrow> mstate \<Rightarrow> mstate \<Rightarrow> mstate" where
  "capture k st st' =
     (case (st, st') of ((i, s, _), (j, t, caps')) \<Rightarrow> (j, t, (k, take (j - i) s) # caps'))"

primrec ms :: "re \<Rightarrow> bool \<Rightarrow> mstate \<Rightarrow> mstate list" where
  "ms (Lit str) ic st = lit ic str st"
| "ms (Cls its) ic st = one (in_class ic its) st"
| "ms (NCls its) ic st = one (\<lambda>c. \<not> in_class ic its c) st"
| "ms Dot ic st = one (\<lambda>c. \<not> is_line_terminator c) st"
| "ms Bol ic st = (if fst st = 0 then [st] else [])"
| "ms (Seq a b) ic st = concat (map (ms b ic) (ms a ic st))"
| "ms (Alt a b) ic st = ms a ic st @ ms b ic st"
| "ms (Star a) ic st = iter (ms a ic) (rest_len st) st"
| "ms (Plus a) ic st = concat (map (\<lambda>st'. iter (ms a ic) (rest_len st') st') (ms a ic st))"
| "ms (Opt a) ic st = filter (\<lambda>st'. rest_len st' < rest_len st) (ms a ic st) @ [st]"
| "ms (Times n a) ic st = repeat_n (ms a ic) n st"
| "ms (Grp k a) ic st = map (capture k st) (ms a ic st)"

text \<open>
  \<open>RegExp.prototype.exec\<close> without the flag \<open>g\<close>: the pattern is tried at index 0, 1, ...
  of the input, and the first index with a match wins. The result is the index where the
  match starts and the state where it ends.
\<close>

fun search :: "re \<Rightarrow> bool \<Rightarrow> nat \<Rightarrow> string \<Rightarrow> (nat \<times> mstate) option" where
  "search r ic i [] = (case ms r ic (i, [], []) of [] \<Rightarrow> None | st # _ \<Rightarrow> Some (i, st))"
| "search r ic i (c # cs) =
     (case ms r ic (i, c # cs, []) of [] \<Rightarrow> search r ic (Suc i) cs | st # _ \<Rightarrow> Some (i, st))"

text \<open>\<open>regex.test(s)\<close>.\<close>

definition regex_test :: "re \<Rightarrow> bool \<Rightarrow> string \<Rightarrow> bool" where
  "regex_test r ic s = (search r ic 0 s \<noteq> None)"

text \<open>
  \<open>s.match(regex)\<close> for a regex without the flag \<open>g\<close>: \<open>None\<close> is \<open>null\<close>, otherwise the
  captures of the match; \<open>group m k\<close> is then \<open>m[k]\<close>, \<open>None\<close> where the group took no
  part in the match.
\<close>

definition regex_match :: "re \<Rightarrow> bool \<Rightarrow> string \<Rightarrow> (nat \<times> string) list option" where
  "regex_match r ic s = map_option (\<lambda>(i, j, t, caps). caps) (search r ic 0 s)"

definition group :: "(nat \<times> string) list \<Rightarrow> nat \<Rightarrow> string option" where
  "group m k = map_of m k"

section \<open>The reference classifiers\<close>

text \<open>The identifier class \<open>[a-zA-Z0-9_-]\<close> of \<open>src/api/ytmp3.js\<close> and \<open>src/index.js\<close>.\<close>

definition id_class :: "item list" where
  "id_class = [R CHR ''a'' CHR ''z'', R CHR ''A'' CHR ''Z'', R CHR ''0'' CHR ''9'', C CHR ''_'', C CHR ''-'']"

text \<open>
  \<open>src/api/ytmp3.js\<close>, \<open>isValidYouTubeUrl\<close> (and \<open>youtubeRegex\<close> of the second program of
  \<open>src/index.js\<close>, the same pattern):
  \<^verbatim>\<open>/^(https?:\/\/)?(www\.)?(youtube\.com\/watch\?v=|youtu\.be\/)([a-zA-Z0-9_-]{11})/\<close>
\<close>

definition youtubeRegex :: re where
  "youtubeRegex =
     Seq Bol
    (Seq (Opt (Grp 1 (Seq (Lit ''http'') (Seq (Opt (Lit ''s'')) (Lit ''://'')))))
    (Seq (Opt (Grp 2 (Lit ''www.'')))
    (Seq (Grp 3 (Alt (Lit ''youtube.com/watch?v='') (Lit ''youtu.be/'')))
         (Grp 4 (Times 11 (Cls id_class))))))"

definition isValidYouTubeUrl :: "string \<Rightarrow> bool" where
  "isValidYouTubeUrl url = regex_test youtubeRegex False url"

text \<open>
  \<open>src/api/ytmp3.js\<close>, \<open>extractVideoId\<close>:
  \<^verbatim>\<open>/(?:youtube\.com\/watch\?v=|youtu\.be\/)([a-zA-Z0-9_-]{11})/\<close>;
  \<open>None\<close> is the \<open>null\<close> that the function returns when nothing matches.
\<close>

definition videoIdRegex :: re where
  "videoIdRegex =
     Seq (Alt (Lit ''youtube.com/watch?v='') (Lit ''youtu.be/''))
         (Grp 1 (Times 11 (Cls id_class)))"

definition extractVideoId :: "string \<Rightarrow> string option" where
  "extractVideoId url =
     (case regex_match videoIdRegex False url of None \<Rightarrow> None | Some m \<Rightarrow> group m 1)"

text \<open>
  The program of \<open>src/unnamed/part_000\<close>, \<open>extractVideoId\<close>:
  \<^verbatim>\<open>/(?:youtube\.com\/(?:[^\/]+\/.+\/|(?:v|e(?:mbed)?)\/|.*[?&]v=)|youtu\.be\/)([^"&?\/\s]{11})/\<close>
\<close>

definition videoIdRegex2 :: re where
  "videoIdRegex2 =
     Seq (Alt (Seq (Lit ''youtube.com/'')
                (Alt (Seq (Plus (NCls [C CHR ''/''])) (Seq (Lit ''/'') (Seq (Plus Dot) (Lit ''/''))))
                (Alt (Seq (Alt (Lit ''v'') (Seq (Lit ''e'') (Opt (Lit ''mbed'')))) (Lit ''/''))
                     (Seq (Star Dot) (Seq (Cls [C CHR ''?'', C CHR ''&'']) (Lit ''v=''))))))
              (Lit ''youtu.be/''))
         (Grp 1 (Times 11 (NCls [C (CHR 0x22), C CHR ''&'', C CHR ''?'', C CHR ''/'', S])))"

definition extractVideoId2 :: "string \<Rightarrow> string option" where
  "extractVideoId2 url =
     (case regex_match videoIdRegex2 False url of None \<Rightarrow> None | Some m \<Rightarrow> group m 1)"


text \<open>The pattern \<open>/(19|20)\d{2}/\<close> of \<open>extractYear\<close> in \<open>src/index.js\<close>.\<close>

definition yearRegex :: re where
  "yearRegex = Seq (Grp 1 (Alt (Lit ''19'') (Lit ''20''))) (Times 2 (Cls [R CHR ''0'' CHR ''9'']))"

text \<open>\<open>yearMatch ? yearMatch[0] : null\<close>: the matched text itself.\<close>

definition extractYear :: "string \<Rightarrow> string option" where
  "extractYear title =
     (case search yearRegex False 0 title of
        None \<Rightarrow> None
      | Some (i, j, t, caps) \<Rightarrow> Some (take (j - i) (drop i title)))"

section \<open>Replacing with a global regular expression\<close>

text \<open>
  \<open>s.replace(regex, rep)\<close> for a regex with the flag \<open>g\<close> and a replacement without
  \<open>$\<close> patterns. At index \<open>i\<close> the engine looks for the next match; the text before it is
  copied, the match becomes \<open>rep\<close>, and the search goes on where the match ended (one
  character later when the match was empty).
\<close>

fun replace_all :: "re \<Rightarrow> bool \<Rightarrow> string \<Rightarrow> nat \<Rightarrow> string \<Rightarrow> string" where
  "replace_all r ic rep i [] = (case ms r ic (i, [], []) of [] \<Rightarrow> [] | st # _ \<Rightarrow> rep)"
| "replace_all r ic rep i (c # cs) =
     (case ms r ic (i, c # cs, []) of
        [] \<Rightarrow> c # replace_all r ic rep (Suc i) cs
      | (j, t, caps) # _ \<Rightarrow>
          if length t < length (c # cs) then rep @ replace_all r ic rep j t
          else rep @ c # replace_all r ic rep (Suc i) cs)"

text \<open>
  The file name of \<open>/api/download\<close> and \<open>/api/download-mp3\<close> in \<open>src/api/ytmp3.js\<close>:
  \<^verbatim>\<open>info.videoDetails.title.replace(/[^\w\s]/gi, '')\<close>.
\<close>

definition sanitize :: "string \<Rightarrow> string" where
  "sanitize title = replace_all (NCls [W, S]) True [] 0 title"

section \<open>JavaScript values\<close>

text \<open>
  The values that an upstream response and a handler's JSON reply are made of. An object
  is the list of its own properties in insertion order. \<open>JFunction\<close> stands for a method
  found on a prototype.
\<close>

datatype jsval =
    JUndefined
  | JNull
  | JBool bool
  | JNum rat
  | JStr string
  | JArr "jsval list"
  | JObj "(string \<times> jsval) list"
  | JFunction string

fun truthy :: "jsval \<Rightarrow> bool" where
  "truthy JUndefined = False"
| "truthy JNull = False"
| "truthy (JBool b) = b"
| "truthy (JNum n) = (n \<noteq> 0)"
| "truthy (JStr s) = (s \<noteq> [])"
| "truthy (JArr xs) = True"
| "truthy (JObj kvs) = True"
| "truthy (JFunction f) = True"

text \<open>
  \<open>v.k\<close> for the property names the programs read (\<open>title\<close>, \<open>link\<close>, \<open>img\<close>,
  \<open>duration\<close>, \<open>url\<close>, \<open>status\<close>) on a value that is neither \<open>null\<close> nor
  \<open>undefined\<close> (the programs test the value first, so no \<open>TypeError\<close> arises). An object
  answers with its own property; of the names above only \<open>link\<close> is inherited by a string
  (\<open>String.prototype.link\<close>), and none by the other values.
\<close>

fun get_prop :: "jsval \<Rightarrow> string \<Rightarrow> jsval" where
  "get_prop (JObj kvs) k = (case map_of kvs k of None \<Rightarrow> JUndefined | Some v \<Rightarrow> v)"
| "get_prop (JStr s) k = (if k = ''link'' then JFunction ''String.prototype.link'' else JUndefined)"
| "get_prop v k = JUndefined"

text \<open>Whether a value has the own property \<open>k\<close>.\<close>

fun has_own :: "jsval \<Rightarrow> string \<Rightarrow> bool" where
  "has_own (JObj kvs) k = (map_of kvs k \<noteq> None)"
| "has_own v k = False"

text \<open>The own properties that an object spread \<open>{...v}\<close> copies.\<close>

fun own_props :: "jsval \<Rightarrow> (string \<times> jsval) list" where
  "own_props (JObj kvs) = kvs"
| "own_props v = []"

text \<open>\<open>a || b\<close>.\<close>

definition js_or :: "jsval \<Rightarrow> jsval \<Rightarrow> jsval" where
  "js_or a b = (if truthy a then a else b)"

text \<open>Setting a property, as the object spread \<open>{...result, k: v}\<close> does for each \<open>k\<close>.\<close>

fun set_prop :: "(string \<times> jsval) list \<Rightarrow> string \<Rightarrow> jsval \<Rightarrow> (string \<times> jsval) list" where
  "set_prop [] k v = [(k, v)]"
| "set_prop ((k', v') # kvs) k v = (if k' = k then (k, v) # kvs else (k', v') # set_prop kvs k v)"

text \<open>A video id in a template literal: \<open>null\<close> prints as \<open>null\<close>.\<close>

fun id_text :: "string option \<Rightarrow> string" where
  "id_text None = ''null''"
| "id_text (Some s) = s"

text \<open>\<open>encodeURIComponent\<close> on code units below 256.\<close>

definition hex_digit :: "nat \<Rightarrow> char" where
  "hex_digit n = ''0123456789ABCDEF'' ! (n mod 16)"

definition percent :: "nat \<Rightarrow> string" where
  "percent n = [CHR ''%'', hex_digit (n div 16), hex_digit n]"

definition uri_unreserved :: "char \<Rightarrow> bool" where
  "uri_unreserved c = (in_range CHR ''a'' CHR ''z'' c \<or> in_range CHR ''A'' CHR ''Z'' c
     \<or> in_range CHR ''0'' CHR ''9'' c \<or> c \<in> set ''-_.!~*'' \<or> code c = 39 \<or> c \<in> set ''()'')"

definition encodeURIComponent :: "string \<Rightarrow> string" where
  "encodeURIComponent s = concat (map (\<lambda>c.
     if uri_unreserved c then [c]
     else if code c < 128 then percent (code c)
     else percent (192 + code c div 64) @ percent (128 + code c mod 64)) s)"

section \<open>The audio strategies\<close>

text \<open>
  What \<open>axios.get\<close> answers for a request URL: \<open>Inl message\<close> when the call throws (a
  transport fault, a timeout, an HTTP error status), \<open>Inr data\<close> for the body of a
  response. The upstream services are not part of the repository, so they are a
  parameter of every strategy.
\<close>

type_synonym upstream = "string \<Rightarrow> string + jsval"

text \<open>A line of the console: \<open>console.log\<close> or \<open>console.error\<close> with its arguments.\<close>

datatype log_entry = Log "jsval list" | LogError "jsval list"

text \<open>
  \<open>ytmp3free\<close> of the second program of \<open>src/index.js\<close>. The result is the object it
  returns.
\<close>

definition ytmp3free :: "upstream \<Rightarrow> string \<Rightarrow> jsval" where
  "ytmp3free net url =
     (let api = ''https://ytmp3free.cc/@api/json/mp3/'' @ encodeURIComponent url in
      case net api of
        Inl message \<Rightarrow>
          JObj [(''status'', JBool False), (''error'', JStr message),
                (''msg'', JStr ''Service temporarily unavailable. Please try again later.'')]
      | Inr data \<Rightarrow>
          if \<not> truthy data \<or> \<not> truthy (get_prop data ''title'') \<or> \<not> truthy (get_prop data ''link'')
          then JObj [(''status'', JBool False), (''msg'', JStr ''Scrape failed or invalid YouTube URL'')]
          else JObj [(''status'', JBool True), (''title'', get_prop data ''title''),
                     (''thumb'', get_prop data ''img''), (''duration'', get_prop data ''duration''),
                     (''mp3'', get_prop data ''link''), (''source'', JStr ''ytmp3free.cc'')])"

text \<open>
  \<open>ytmp3free\<close> of \<open>src/unnamed/part_000\<close> (method 1), with the lines it writes to the
  console.
\<close>

definition ytmp3free2 :: "upstream \<Rightarrow> string \<Rightarrow> jsval \<times> log_entry list" where
  "ytmp3free2 net url =
     (case extractVideoId2 url of
        None \<Rightarrow> (JObj [(''status'', JBool False), (''msg'', JStr ''Invalid YouTube URL'')], [])
      | Some videoId \<Rightarrow>
          (let api = ''https://ytmp3free.cc/@api/json/mp3/'' @ videoId;
               log1 = [Log [JStr ''Fetching from:'', JStr api]] in
           case net api of
             Inl message \<Rightarrow>
               (JObj [(''status'', JBool False), (''error'', JStr message),
                      (''msg'', JStr ''Service temporarily unavailable'')],
                log1 @ [LogError [JStr ''ytmp3free error:'', JStr message]])
           | Inr data \<Rightarrow>
               (let log2 = log1 @ [Log [JStr ''Raw response:'', data]] in
                if \<not> truthy data \<or> \<not> truthy (get_prop data ''title'') \<or> \<not> truthy (get_prop data ''link'')
                then (JObj [(''status'', JBool False), (''msg'', JStr ''No data received from service''),
                            (''rawData'', data)], log2)
                else (JObj [(''status'', JBool True), (''title'', get_prop data ''title''),
                            (''thumb'', js_or (get_prop data ''img'')
                               (JStr (''https://i.ytimg.com/vi/'' @ videoId @ ''/maxresdefault.jpg''))),
                            (''duration'', get_prop data ''duration''),
                            (''mp3'', get_prop data ''link''), (''source'', JStr ''ytmp3free.cc''),
                            (''videoId'', JStr videoId)], log2))))"

text \<open>\<open>alternativeService\<close> of \<open>src/unnamed/part_000\<close> (method 2).\<close>

definition alternativeService :: "upstream \<Rightarrow> string \<Rightarrow> jsval" where
  "alternativeService net url =
     (let videoId = extractVideoId2 url;
          apiUrl = ''https://api.vevioz.com/api/button/mp3/'' @ id_text videoId in
      case net apiUrl of
        Inl message \<Rightarrow> JObj [(''status'', JBool False), (''msg'', JStr ''Alternative service error'')]
      | Inr data \<Rightarrow>
          if truthy data \<and> truthy (get_prop data ''url'')
          then JObj [(''status'', JBool True), (''title'', JStr (''YouTube Video '' @ id_text videoId)),
                     (''thumb'', JStr (''https://i.ytimg.com/vi/'' @ id_text videoId @ ''/maxresdefault.jpg'')),
                     (''mp3'', get_prop data ''url''), (''source'', JStr ''vevioz.com''),
                     (''videoId'', (case videoId of None \<Rightarrow> JNull | Some v \<Rightarrow> JStr v))]
          else JObj [(''status'', JBool False), (''msg'', JStr ''Alternative service failed'')])"

text \<open>
  \<open>getMP3Info\<close> of \<open>src/unnamed/part_000\<close>: the primary service first, the alternative
  when the primary's result has a falsy \<open>status\<close>. The variable \<open>result\<close> is overwritten.
\<close>

definition getMP3Info :: "upstream \<Rightarrow> string \<Rightarrow> jsval \<times> log_entry list" where
  "getMP3Info net url =
     (case ytmp3free2 net url of (result, log1) \<Rightarrow>
        if \<not> truthy (get_prop result ''status'')
        then (alternativeService net url,
              log1 @ [Log [JStr ''Primary service failed, trying alternative...'']])
        else (result, log1))"

text \<open>
  The handler \<open>app.get('/api/mp3')\<close> of \<open>src/unnamed/part_000\<close>: the HTTP status and the
  JSON body of the reply, for a query parameter \<open>youtubeUrl\<close> that is absent or a string.
\<close>

definition api_mp3 :: "upstream \<Rightarrow> string option \<Rightarrow> nat \<times> jsval" where
  "api_mp3 net youtubeUrl =
     (case youtubeUrl of
        None \<Rightarrow> (400, JObj [(''status'', JBool False), (''error'', JStr ''Missing youtubeUrl parameter''),
                   (''example'', JStr ''/api/mp3?youtubeUrl=https://www.youtube.com/watch?v=VIDEO_ID'')])
      | Some u \<Rightarrow>
          if u = [] then
            (400, JObj [(''status'', JBool False), (''error'', JStr ''Missing youtubeUrl parameter''),
                   (''example'', JStr ''/api/mp3?youtubeUrl=https://www.youtube.com/watch?v=VIDEO_ID'')])
          else (case extractVideoId2 u of
            None \<Rightarrow> (400, JObj [(''status'', JBool False), (''error'', JStr ''Invalid YouTube URL''),
                   (''supported_formats'', JArr [JStr ''https://www.youtube.com/watch?v=VIDEO_ID'',
                      JStr ''https://youtu.be/VIDEO_ID'', JStr ''https://www.youtube.com/embed/VIDEO_ID''])])
          | Some videoId \<Rightarrow>
              (let result = fst (getMP3Info net u) in
               if truthy (get_prop result ''status'') then (200, result)
               else (500, JObj (set_prop (set_prop (own_props result) ''videoId'' (JStr videoId)) ''note''
                       (JStr ''The service might be temporarily down. Please try again later.''))))))"

section \<open>The catalogue scraper\<close>

text \<open>
  The first program of \<open>src/index.js\<close> reads a page through cheerio. The page is modelled
  by what the selectors of the handlers return from it: for each element matching
  \<open>.post-box, .movie-item, article, .post\<close> the text and the \<open>href\<close> of its first
  heading link (\<open>h2 a, h3 a, .title a, .entry-title a\<close>), the \<open>src\<close> of its first image
  and the text of its first excerpt; and for each \<open>a\<close> element of the page its \<open>href\<close>
  and its text. An attribute that is absent is \<open>None\<close> (\<open>undefined\<close>), a text that is
  absent is empty.
\<close>

record post =
  heading_text :: string
  heading_href :: "string option"
  img_src :: "string option"
  excerpt_text :: string

record anchor =
  a_href :: "string option"
  a_text :: string

record document =
  posts :: "post list"
  anchors :: "anchor list"

record movie =
  m_title :: string
  m_link :: string
  m_image :: "string option"
  m_description :: string
  m_year :: "string option"

definition BASE_URL :: string where
  "BASE_URL = ''https://sinhalasub.lk''"

text \<open>\<open>link.startsWith('http') ? link : BASE_URL + link\<close>.\<close>

definition absolute :: "string \<Rightarrow> string" where
  "absolute l = (if startsWith l ''http'' then l else BASE_URL @ l)"

text \<open>
  \<open>app.get('/api/search')\<close>: the first \<open>each\<close> loop, over the post elements, pushing
  to \<open>movies\<close>.
\<close>

fun primary_pass :: "post list \<Rightarrow> movie list \<Rightarrow> movie list" where
  "primary_pass [] movies = movies"
| "primary_pass (e # es) movies =
     (let title = trim (heading_text e) in
      case heading_href e of
        None \<Rightarrow> primary_pass es movies
      | Some l \<Rightarrow>
          if title \<noteq> [] \<and> l \<noteq> []
          then primary_pass es (movies @
            [\<lparr>m_title = title, m_link = absolute l,
              m_image = (case img_src e of None \<Rightarrow> None | Some i \<Rightarrow> if i = [] then None else Some i),
              m_description = trim (excerpt_text e), m_year = extractYear title\<rparr>])
          else primary_pass es movies)"

text \<open>The second loop, over every \<open>a\<close> element.\<close>

fun link_pass :: "anchor list \<Rightarrow> movie list \<Rightarrow> movie list" where
  "link_pass [] movies = movies"
| "link_pass (e # es) movies =
     (let t = trim (a_text e) in
      case a_href e of
        None \<Rightarrow> link_pass es movies
      | Some h \<Rightarrow>
          if h \<noteq> [] \<and> t \<noteq> [] \<and> str_includes h ''/movie/'' \<and> length t > 5
          then link_pass es (movies @
            [\<lparr>m_title = t, m_link = absolute h, m_image = None, m_description = [],
              m_year = extractYear t\<rparr>])
          else link_pass es movies)"

text \<open>The \<open>movies\<close> array of the reply: the second loop runs when the first found nothing.\<close>

definition search_movies :: "document \<Rightarrow> movie list" where
  "search_movies doc =
     (let movies = primary_pass (posts doc) [] in
      if length movies = 0 then link_pass (anchors doc) movies else movies)"

text \<open>\<open>app.get('/api/movie')\<close>: the entries of \<open>movie.downloadLinks\<close>.\<close>

record dlink =
  dl_provider :: string
  dl_url :: string
  dl_type :: string

definition classifyLinkType :: "string \<Rightarrow> string \<Rightarrow> string" where
  "classifyLinkType t u =
     (if str_includes u ''drive.google.com'' then ''google_drive''
      else if str_includes u ''mega.nz'' then ''mega''
      else if str_includes u ''mediafire.com'' then ''mediafire''
      else if str_includes u ''dropbox.com'' then ''dropbox''
      else if str_includes t ''watch'' then ''stream''
      else ''download'')"

text \<open>The condition under which the loop pushes the link \<open>href\<close> with the text \<open>t\<close>.\<close>

definition is_download_link :: "string \<Rightarrow> string \<Rightarrow> bool" where
  "is_download_link h t =
     (h \<noteq> [] \<and> (str_includes t ''download'' \<or> str_includes t ''watch''
        \<or> str_includes h ''drive.google.com'' \<or> str_includes h ''mega.nz''
        \<or> str_includes h ''mediafire.com'' \<or> str_includes h ''dropbox''))"

fun download_links :: "anchor list \<Rightarrow> dlink list \<Rightarrow> dlink list" where
  "download_links [] links = links"
| "download_links (e # es) links =
     (let t = toLowerCase (trim (a_text e)) in
      case a_href e of
        None \<Rightarrow> download_links es links
      | Some h \<Rightarrow>
          if is_download_link h t
          then download_links es (links @
            [\<lparr>dl_provider = (if t \<noteq> [] then t else ''Download''), dl_url = h,
              dl_type = classifyLinkType t h\<rparr>])
          else download_links es links)"

definition downloadLinks :: "document \<Rightarrow> dlink list" where
  "downloadLinks doc = download_links (anchors doc) []"

section \<open>Stream delivery\<close>

text \<open>
  The response object of a handler of \<open>src/api/ytmp3.js\<close>: what has been put on the wire
  is \<open>body\<close>, a sequence of byte chunks and JSON payloads. As in Node, \<open>headersSent\<close>
  turns true with the first write; \<open>setHeader\<close> alone sends nothing, and it throws
  on a value with a control character other than the tab. \<open>ended\<close> is true once the
  response has been completed (\<open>res.end()\<close>, also through \<open>res.json\<close>), and \<open>destroyed\<close>
  once it has been torn down (\<open>res.destroy()\<close>), which no handler of the source calls.
\<close>

datatype chunk = Bytes string | Json jsval

record response =
  statusCode :: nat
  headers :: "(string \<times> string) list"
  headersSent :: bool
  body :: "chunk list"
  ended :: bool
  destroyed :: bool

definition new_response :: response where
  "new_response = \<lparr>statusCode = 200, headers = [], headersSent = False, body = [],
     ended = False, destroyed = False\<rparr>"

definition valid_header_value :: "string \<Rightarrow> bool" where
  "valid_header_value v = list_all (\<lambda>c. code c = 9 \<or> (32 \<le> code c \<and> code c \<noteq> 127)) v"

definition setHeader :: "string \<Rightarrow> string \<Rightarrow> response \<Rightarrow> response" where
  "setHeader k v res = res\<lparr>headers := AList.update k v (headers res)\<rparr>"

text \<open>\<open>res.write(b)\<close>, which the pipe calls for every chunk.\<close>

definition res_write :: "string \<Rightarrow> response \<Rightarrow> response" where
  "res_write b res = res\<lparr>headersSent := True, body := body res @ [Bytes b]\<rparr>"

text \<open>\<open>res.end()\<close>, which the pipe calls when its source ends.\<close>

definition res_end :: "response \<Rightarrow> response" where
  "res_end res = res\<lparr>headersSent := True, ended := True\<rparr>"

text \<open>
  \<open>res.status(code).json(v)\<close>. Express sets the content type to \<open>application/json\<close>
  only when the response has none yet, so a type set before stays (the \<open>charset\<close>
  parameter that is appended to the type is left out of the model).
\<close>

definition res_json :: "nat \<Rightarrow> jsval \<Rightarrow> response \<Rightarrow> response" where
  "res_json code' v res =
     res\<lparr>statusCode := code',
         headers := (if map_of (headers res) ''Content-Type'' = None
                     then AList.update ''Content-Type'' ''application/json'' (headers res)
                     else headers res),
         headersSent := True, body := body res @ [Json v], ended := True\<rparr>"

definition error_body :: "string \<Rightarrow> jsval" where
  "error_body m = JObj [(''error'', JStr m)]"

text \<open>
  What the piped stream does after the handler has returned: it emits chunks, and it
  either ends or fails, after which it emits nothing more. For \<open>/api/download\<close> the
  stream is the output of the ffmpeg command and \<open>Fail\<close> is a failure of the transcoder;
  for \<open>/api/download-mp3\<close> it is the ytdl stream and \<open>Fail\<close> is its \<open>error\<close> event.
\<close>

datatype stream_event = Chunk string | Fail string

text \<open>
  \<open>/api/download\<close>: the ffmpeg command piped to the response with \<open>{ end: true }\<close>, and
  its \<open>error\<close> and \<open>end\<close> listeners. The pipe ends the response when the output of the
  command ends. When the transcoder fails its output closes first, so the pipe has ended
  the response by the time the \<open>error\<close> listener runs, and the listener finds
  \<open>headersSent\<close> true. How the command reports a failure of the stream that feeds it is
  decided inside the library and is not modelled.
\<close>

fun pipe_ffmpeg :: "stream_event list \<Rightarrow> response \<times> log_entry list \<Rightarrow> response \<times> log_entry list" where
  "pipe_ffmpeg [] (res, lg) = (res_end res, lg @ [Log [JStr ''Conversion finished'']])"
| "pipe_ffmpeg (Chunk b # es) (res, lg) = pipe_ffmpeg es (res_write b res, lg)"
| "pipe_ffmpeg (Fail err # es) (res, lg) =
     (let res' = res_end res in
      (if \<not> headersSent res' then res_json 500 (error_body ''Conversion failed'') res' else res',
       lg @ [LogError [JStr ''FFmpeg error:'', JStr err]]))"


text \<open>The header value \<^verbatim>\<open>attachment; filename="${title}.mp3"\<close>.\<close>

definition content_disposition :: "string \<Rightarrow> string" where
  "content_disposition title = ''attachment; filename='' @ [CHR 0x22] @ title @ ''.mp3'' @ [CHR 0x22]"

text \<open>The message of the error that \<open>setHeader\<close> throws for the value of this header.\<close>

definition invalid_header_message :: string where
  "invalid_header_message =
     ''Invalid character in header content ['' @ [CHR 0x22] @ ''Content-Disposition'' @ [CHR 0x22] @ '']''"

text \<open>The \<open>catch\<close> block of both handlers.\<close>

definition download_catch :: "string \<Rightarrow> response \<Rightarrow> response \<times> log_entry list" where
  "download_catch err res =
     (if \<not> headersSent res then res_json 500 (error_body ''Download failed'') res else res,
      [LogError [JStr ''Download error:'', JStr err]])"

text \<open>
  \<open>app.get('/api/download')\<close>. The parameters are the query parameter \<open>url\<close>, what
  \<open>ytdl.getInfo\<close> answers (\<open>Inl\<close> when it rejects, \<open>Inr\<close> the title of the video) and the
  events of the transcoded stream.
\<close>

definition api_download :: "string option \<Rightarrow> string + string \<Rightarrow> stream_event list \<Rightarrow> response \<times> log_entry list" where
  "api_download url info events =
     (case url of
        None \<Rightarrow> (res_json 400 (error_body ''URL parameter is required'') new_response, [])
      | Some u \<Rightarrow>
          if u = [] then (res_json 400 (error_body ''URL parameter is required'') new_response, [])
          else if \<not> isValidYouTubeUrl u then (res_json 400 (error_body ''Invalid YouTube URL'') new_response, [])
          else (case info of
            Inl err \<Rightarrow> download_catch err new_response
          | Inr t \<Rightarrow>
              (let disposition = content_disposition (sanitize t) in
               if \<not> valid_header_value disposition
               then download_catch invalid_header_message new_response
               else pipe_ffmpeg events
                 (setHeader ''Content-Type'' ''audio/mpeg''
                    (setHeader ''Content-Disposition'' disposition new_response), []))))"


section \<open>Notions used in the statements\<close>

text \<open>The alphabet of a video identifier, \<open>[A-Za-z0-9_-]\<close>.\<close>

definition id_char :: "char \<Rightarrow> bool" where
  "id_char c = in_class False id_class c"

text \<open>
  What may stand before \<open>youtube.com/\<close> or \<open>youtu.be/\<close> in a URL that
  \<open>isValidYouTubeUrl\<close> accepts: an optional scheme and an optional \<open>www.\<close>
\<close>

definition url_prefixes :: "string list" where
  "url_prefixes = [''https://www.'', ''https://'', ''http://www.'', ''http://'', ''www.'', []]"

text \<open>
  What a greedy star over a one-character pattern yields: the states after each run of
  characters satisfying \<open>p\<close>, the longest run first.
\<close>

fun star1 :: "(char \<Rightarrow> bool) \<Rightarrow> mstate \<Rightarrow> mstate list" where
  "star1 p (i, [], caps) = [(i, [], caps)]"
| "star1 p (i, c # cs, caps) = (if p c then star1 p (Suc i, cs, caps) else []) @ [(i, c # cs, caps)]"

text \<open>The parts of the pattern of \<open>videoIdRegex2\<close>.\<close>

abbreviation path_alt :: re where
  "path_alt \<equiv> Seq (Plus (NCls [C CHR ''/''])) (Seq (Lit ''/'') (Seq (Plus Dot) (Lit ''/'')))"

abbreviation embed_alt :: re where
  "embed_alt \<equiv> Seq (Alt (Lit ''v'') (Seq (Lit ''e'') (Opt (Lit ''mbed'')))) (Lit ''/'')"

abbreviation query_tail :: re where
  "query_tail \<equiv> Seq (Cls [C CHR ''?'', C CHR ''&'']) (Lit ''v='')"

abbreviation query_alt :: re where
  "query_alt \<equiv> Seq (Star Dot) query_tail"

abbreviation id_group2 :: re where
  "id_group2 \<equiv> Grp 1 (Times 11 (NCls [C (CHR 0x22), C CHR ''&'', C CHR ''?'', C CHR ''/'', S]))"

text \<open>A result counts as a success when its \<open>status\<close> is truthy, as the handlers test it.\<close>

definition status_ok :: "jsval \<Rightarrow> bool" where
  "status_ok r = truthy (get_prop r ''status'')"

text \<open>A field is present and non-empty: not \<open>undefined\<close>, not \<open>null\<close>, not the empty string.\<close>

definition present_nonempty :: "jsval \<Rightarrow> bool" where
  "present_nonempty v = (v \<noteq> JUndefined \<and> v \<noteq> JNull \<and> v \<noteq> JStr [])"

text \<open>The line that \<open>getMP3Info\<close> writes before it falls back.\<close>

definition primary_failed_line :: log_entry where
  "primary_failed_line = Log [JStr ''Primary service failed, trying alternative...'']"

text \<open>The note that the handler adds to a failure, and the first line of the primary strategy.\<close>

definition service_note :: jsval where
  "service_note = JStr ''The service might be temporarily down. Please try again later.''"

definition fetching_line :: "string \<Rightarrow> log_entry" where
  "fetching_line vid = Log [JStr ''Fetching from:'', JStr (''https://ytmp3free.cc/@api/json/mp3/'' @ vid)]"

text \<open>What the second loop of the search handler pushes for one \<open>a\<close> element.\<close>

definition link_entry :: "anchor \<Rightarrow> movie list" where
  "link_entry e =
     (case a_href e of
        None \<Rightarrow> []
      | Some h \<Rightarrow>
          if h \<noteq> [] \<and> trim (a_text e) \<noteq> [] \<and> str_includes h ''/movie/'' \<and> length (trim (a_text e)) > 5
          then [\<lparr>m_title = trim (a_text e), m_link = absolute h, m_image = None, m_description = [],
                 m_year = extractYear (trim (a_text e))\<rparr>]
          else [])"

text \<open>The \<open>url\<close> that the loop of \<open>/api/movie\<close> pushes for one \<open>a\<close> element, if any.\<close>

definition link_url :: "anchor \<Rightarrow> string list" where
  "link_url e =
     (case a_href e of
        None \<Rightarrow> []
      | Some h \<Rightarrow> if is_download_link h (toLowerCase (trim (a_text e))) then [h] else [])"


text \<open>The response when the pipe is set up: both headers set, nothing sent.\<close>

definition stream_start :: "string \<Rightarrow> response" where
  "stream_start t = setHeader ''Content-Type'' ''audio/mpeg''
     (setHeader ''Content-Disposition'' (content_disposition (sanitize t)) new_response)"

text \<open>Upstreams and pages for the examples.\<close>

definition net_down :: upstream where
  "net_down = (\<lambda>u. Inl ''ETIMEDOUT'')"

definition net_secondary :: upstream where
  "net_secondary = (\<lambda>u. if u = ''https://api.vevioz.com/api/button/mp3/ArkDQvI_OPE''
     then Inr (JObj [(''url'', JStr ''https://cdn/x.mp3'')])
     else Inr (JObj [(''title'', JStr ''T'')]))"

definition net_hard :: upstream where
  "net_hard = (\<lambda>u. if u = ''https://api.vevioz.com/api/button/mp3/ArkDQvI_OPE''
     then Inr (JObj [(''url'', JStr ''https://cdn/x.mp3'')])
     else Inl ''ETIMEDOUT'')"

definition net_primary :: upstream where
  "net_primary = (\<lambda>u. Inr (JObj [(''title'', JStr ''T''), (''link'', JStr ''https://cdn/y.mp3'')]))"

definition doc_six :: document where
  "doc_six = \<lparr>posts = [], anchors = [\<lparr>a_href = Some ''/movie/abc'', a_text = '' Titles ''\<rparr>]\<rparr>"

definition doc_five :: document where
  "doc_five = \<lparr>posts = [], anchors = [\<lparr>a_href = Some ''/movie/abc'', a_text = ''Title''\<rparr>]\<rparr>"

definition doc_twice :: document where
  "doc_twice = \<lparr>posts = [], anchors =
     [\<lparr>a_href = Some ''https://mega.nz/x'', a_text = ''Download''\<rparr>,
      \<lparr>a_href = Some ''https://mega.nz/x'', a_text = ''Mirror''\<rparr>]\<rparr>"

section \<open>Properties of the matcher\<close>

lemma code_simps:
  "code CHR ''a'' = 97" "code CHR ''z'' = 122" "code CHR ''A'' = 65" "code CHR ''Z'' = 90"
  "code CHR ''0'' = 48" "code CHR ''9'' = 57" "code CHR ''_'' = 95" "code CHR ''-'' = 45"
  "code CHR ''/'' = 47" "code CHR ''?'' = 63" "code CHR ''&'' = 38" "code (CHR 0x22) = 34"
  by (simp_all add: code_def)

lemma id_char_iff:
  "id_char c \<longleftrightarrow> (97 \<le> code c \<and> code c \<le> 122) \<or> (65 \<le> code c \<and> code c \<le> 90)
     \<or> (48 \<le> code c \<and> code c \<le> 57) \<or> code c = 95 \<or> code c = 45"
proof -
  have "c = CHR ''_'' \<longleftrightarrow> code c = 95" "c = CHR ''-'' \<longleftrightarrow> code c = 45"
    unfolding code_def by (metis of_char_eq_iff code_simps(7) code_def, metis of_char_eq_iff code_simps(8) code_def)
  then show ?thesis
    by (simp add: id_char_def in_class_def id_class_def in_range_def code_simps)
qed

lemma id_char_not_special:
  assumes "id_char c"
  shows "c \<noteq> CHR ''/''" "c \<noteq> CHR ''?''" "c \<noteq> CHR ''&''" "c \<noteq> CHR 0x22"
    "\<not> is_space c" "\<not> is_line_terminator c"
  using assms unfolding id_char_iff is_space_def is_line_terminator_def
  by (auto simp: code_simps)

lemma iter_one_star1:
  "length s \<le> n \<Longrightarrow> iter (one p) n (i, s, caps) = star1 p (i, s, caps)"
proof (induction s arbitrary: n i)
  case Nil
  then show ?case by (cases n) (simp_all add: rest_len_def)
next
  case (Cons c cs)
  then obtain m where n: "n = Suc m" and m: "length cs \<le> m" by (cases n) auto
  show ?case using Cons.IH [OF m] by (simp add: n rest_len_def)
qed

lemma times_one:
  "repeat_n (one p) n (i, s, caps) =
     (if n \<le> length s \<and> list_all p (take n s) then [(i + n, drop n s, caps)] else [])"
proof (induction n arbitrary: i s)
  case 0
  then show ?case by simp
next
  case (Suc n)
  show ?case
  proof (cases s)
    case Nil
    then show ?thesis by simp
  next
    case (Cons c cs)
    then show ?thesis using Suc.IH [of "Suc i" cs] by simp
  qed
qed

lemma star1_states:
  "st \<in> set (star1 p (i, s, caps)) \<Longrightarrow> \<exists>k\<le>length s. st = (i + k, drop k s, caps)"
proof (induction s arbitrary: i)
  case Nil
  then show ?case by simp
next
  case (Cons c cs)
  show ?case
  proof (cases "st = (i, c # cs, caps)")
    case True
    then show ?thesis by (intro exI [of _ 0]) simp
  next
    case False
    with Cons.prems have "st \<in> set (star1 p (Suc i, cs, caps))"
      by (auto split: if_splits)
    from Cons.IH [OF this] obtain k where "k \<le> length cs" "st = (Suc i + k, drop k cs, caps)"
      by blast
    then show ?thesis by (intro exI [of _ "Suc k"]) simp
  qed
qed

lemma ms_one_eqs:
  "ms (Cls its) ic = one (in_class ic its)"
  "ms (NCls its) ic = one (\<lambda>c. \<not> in_class ic its c)"
  "ms Dot ic = one (\<lambda>c. \<not> is_line_terminator c)"
  by (rule ext, simp)+

lemma star_one:
  "ms a ic = one p \<Longrightarrow> ms (Star a) ic (i, s, caps) = star1 p (i, s, caps)"
  by (simp add: rest_len_def iter_one_star1)

lemma plus_one:
  "ms a ic = one p \<Longrightarrow> ms (Plus a) ic (i, c # cs, caps) = (if p c then star1 p (Suc i, cs, caps) else [])"
  "ms a ic = one p \<Longrightarrow> ms (Plus a) ic (i, [], caps) = []"
  by (simp_all add: rest_len_def iter_one_star1)

lemma times_cls:
  "ms a ic = one p \<Longrightarrow> ms (Times n a) ic (i, s, caps) =
     (if n \<le> length s \<and> list_all p (take n s) then [(i + n, drop n s, caps)] else [])"
  by (simp add: times_one)

lemma concat_map_Nil: "(\<And>x. x \<in> set xs \<Longrightarrow> f x = []) \<Longrightarrow> concat (map f xs) = []"
  by (induction xs) auto

lemma lit_after_star1:
  assumes "a \<notin> set s" and "st \<in> set (star1 p (i, s, caps))"
  shows "lit False (a # as) st = []"
proof -
  obtain k where k: "st = (i + k, drop k s, caps)"
    using star1_states [OF assms(2)] by blast
  show ?thesis
  proof (cases "drop k s")
    case Nil
    then show ?thesis by (simp add: k)
  next
    case (Cons c cs)
    then have "c \<in> set s" by (metis in_set_dropD list.set_intros(1))
    with assms(1) have "c \<noteq> a" by auto
    then show ?thesis by (simp add: k Cons chr_eq_def)
  qed
qed

lemma one_after_star1:
  assumes "\<And>c. c \<in> set s \<Longrightarrow> \<not> q c" and "st \<in> set (star1 p (i, s, caps))"
  shows "one q st = []"
proof -
  obtain k where k: "st = (i + k, drop k s, caps)"
    using star1_states [OF assms(2)] by blast
  show ?thesis
  proof (cases "drop k s")
    case Nil
    then show ?thesis by (simp add: k)
  next
    case (Cons c cs)
    then have "c \<in> set s" by (metis in_set_dropD list.set_intros(1))
    with assms(1) have "\<not> q c" by auto
    then show ?thesis by (simp add: k Cons)
  qed
qed

lemma slash_after_star1:
  "CHR ''/'' \<notin> set s \<Longrightarrow> concat (map (ms (Seq (Lit ''/'') x) False) (star1 p (i, s, caps))) = []"
  by (rule concat_map_Nil) (simp add: lit_after_star1)

lemma path_alt_no_slash:
  assumes "CHR ''/'' \<notin> set s"
  shows "ms path_alt False (i, s, caps) = []"
proof (cases s)
  case Nil
  then show ?thesis by (simp add: plus_one [OF ms_one_eqs(2)])
next
  case (Cons c cs)
  with assms have cs: "CHR ''/'' \<notin> set cs" by simp
  have "ms path_alt False (i, c # cs, caps) =
      concat (map (ms (Seq (Lit ''/'') (Seq (Plus Dot) (Lit ''/''))) False)
        (ms (Plus (NCls [C CHR ''/''])) False (i, c # cs, caps)))"
    by (simp only: ms.simps(6))
  also have "\<dots> = []"
    unfolding plus_one [OF ms_one_eqs(2)]
    by (cases "in_class False [C CHR ''/''] c") (simp_all only: if_True if_False not_True_eq_False not_False_eq_True slash_after_star1 [OF cs] list.map concat.simps)
  finally show ?thesis by (simp only: Cons)
qed

lemma query_tail_after_star1:
  assumes "\<And>c. c \<in> set s \<Longrightarrow> id_char c"
  shows "concat (map (ms query_tail False) (star1 p (i, s, caps))) = []"
proof (rule concat_map_Nil)
  fix st assume st: "st \<in> set (star1 p (i, s, caps))"
  have "one (in_class False [C CHR ''?'', C CHR ''&'']) st = []"
  proof (rule one_after_star1 [OF _ st])
    fix c assume "c \<in> set s"
    then have "id_char c" by (rule assms)
    then show "\<not> in_class False [C CHR ''?'', C CHR ''&''] c"
      using id_char_not_special [of c] by (simp add: in_class_def)
  qed
  then show "ms query_tail False st = []" by simp
qed

lemma id_char_group2:
  "id_char c \<Longrightarrow> \<not> in_class False [C (CHR 0x22), C CHR ''&'', C CHR ''?'', C CHR ''/'', S] c"
  using id_char_not_special [of c] by (simp add: in_class_def)

lemma id_group2:
  assumes "11 \<le> length s" and "\<And>c. c \<in> set s \<Longrightarrow> id_char c"
  shows "ms id_group2 False (i, s, caps) = [(i + 11, drop 11 s, (1, take 11 s) # caps)]"
proof -
  have "list_all (\<lambda>c. \<not> in_class False [C (CHR 0x22), C CHR ''&'', C CHR ''?'', C CHR ''/'', S] c) (take 11 s)"
    unfolding list_all_iff using assms(2) id_char_group2 by (meson in_set_takeD)
  then show ?thesis
    using assms(1) by (simp add: times_cls [OF ms_one_eqs(2)] capture_def del: ms.simps(3,11))
qed

lemmas one_rules = plus_one [OF ms_one_eqs(1)] plus_one [OF ms_one_eqs(2)] plus_one [OF ms_one_eqs(3)]
  star_one [OF ms_one_eqs(1)] star_one [OF ms_one_eqs(2)] star_one [OF ms_one_eqs(3)]

lemma path_alt_embed:
  assumes "CHR ''/'' \<notin> set s"
  shows "ms path_alt False (i, ''embed/'' @ s, caps) = []"
proof (cases s)
  case Nil
  then show ?thesis
    by (simp add: one_rules in_class_def chr_eq_def del: ms.simps(8,9))
next
  case (Cons c cs)
  with assms have "CHR ''/'' \<notin> set cs" by simp
  then show ?thesis
    by (auto simp add: Cons one_rules in_class_def chr_eq_def simp del: ms.simps(8,9) intro: lit_after_star1)
qed

lemma embed_alt_embed:
  "ms embed_alt False (i, ''embed/'' @ s, caps) = [(i + 6, s, caps)]"
  by (simp add: chr_eq_def rest_len_def)

lemma embed_alt_watch:
  "ms embed_alt False (i, ''watch?v='' @ s, caps) = []"
  by (simp add: chr_eq_def rest_len_def)

lemma query_alt_watch:
  assumes "\<And>c. c \<in> set s \<Longrightarrow> id_char c"
  shows "ms query_alt False (i, ''watch?v='' @ s, caps) = [(i + 8, s, caps)]"
  using query_tail_after_star1 [of s, OF assms]
  by (simp add: one_rules in_class_def chr_eq_def is_line_terminator_def code_def del: ms.simps(8,9))

lemma query_alt_embed:
  assumes "\<And>c. c \<in> set s \<Longrightarrow> id_char c"
  shows "ms query_alt False (i, ''embed/'' @ s, caps) = []"
  using query_tail_after_star1 [of s, OF assms]
  by (simp add: one_rules in_class_def chr_eq_def is_line_terminator_def code_def del: ms.simps(8,9))

lemma no_slash: "(\<And>c. c \<in> set s \<Longrightarrow> id_char c) \<Longrightarrow> CHR ''/'' \<notin> set s"
  using id_char_not_special(1) by blast

lemma lit_append: "lit False p (i, p @ s, caps) = [(i + length p, s, caps)]"
  by (induction p arbitrary: i) (simp_all add: chr_eq_def)

lemma regex2_skip:
  "c \<noteq> CHR ''y'' \<Longrightarrow> ms videoIdRegex2 False (i, c # cs, caps) = []"
  by (simp add: videoIdRegex2_def chr_eq_def)

lemma seq_single: "ms a ic st = [st'] \<Longrightarrow> ms (Seq a b) ic st = ms b ic st'"
  by simp

lemma seq_nil: "ms a ic st = [] \<Longrightarrow> ms (Seq a b) ic st = []"
  by simp

lemma alt_nil_left: "ms a ic st = [] \<Longrightarrow> ms (Alt a b) ic st = ms b ic st"
  by simp

lemma alt_nil_right: "ms b ic st = [] \<Longrightarrow> ms (Alt a b) ic st = ms a ic st"
  by simp

lemma ms_lit_append: "ms (Lit p) False (i, p @ s, caps) = [(i + length p, s, caps)]"
  by (simp add: lit_append)

lemma regex2_watch:
  assumes "11 \<le> length s" and "\<And>c. c \<in> set s \<Longrightarrow> id_char c"
  shows "ms videoIdRegex2 False (i, ''youtube.com/watch?v='' @ s, caps)
    = [(i + 31, drop 11 s, (1, take 11 s) # caps)]"
proof -
  let ?st = "(i, ''youtube.com/watch?v='' @ s, caps)"
  let ?st' = "(i + 12, ''watch?v='' @ s, caps)"
  have 1: "ms (Lit ''youtube.com/'') False ?st = [?st']"
    using ms_lit_append [of "''youtube.com/''" i "''watch?v='' @ s" caps] by simp
  have 2: "ms (Lit ''youtu.be/'') False ?st = []"
    by (simp add: chr_eq_def)
  have 3: "ms path_alt False ?st' = []"
    by (rule path_alt_no_slash) (simp add: no_slash [OF assms(2)])
  have "ms (Alt path_alt (Alt embed_alt query_alt)) False ?st' = ms (Alt embed_alt query_alt) False ?st'"
    by (rule alt_nil_left [OF 3])
  also have "\<dots> = ms query_alt False ?st'"
    by (rule alt_nil_left [OF embed_alt_watch])
  also have "\<dots> = [(i + 12 + 8, s, caps)]"
    by (rule query_alt_watch [OF assms(2)])
  finally have 4: "ms (Seq (Lit ''youtube.com/'') (Alt path_alt (Alt embed_alt query_alt))) False ?st
      = [(i + 12 + 8, s, caps)]"
    by (simp only: seq_single [OF 1])
  have 5: "ms (Alt (Seq (Lit ''youtube.com/'') (Alt path_alt (Alt embed_alt query_alt))) (Lit ''youtu.be/'')) False ?st
      = [(i + 12 + 8, s, caps)]"
    by (simp only: alt_nil_right [OF 2] 4)
  show ?thesis
    unfolding videoIdRegex2_def
    by (simp only: seq_single [OF 5] id_group2 [OF assms]) simp
qed

lemma regex2_embed:
  assumes "11 \<le> length s" and "\<And>c. c \<in> set s \<Longrightarrow> id_char c"
  shows "ms videoIdRegex2 False (i, ''youtube.com/embed/'' @ s, caps)
    = [(i + 29, drop 11 s, (1, take 11 s) # caps)]"
proof -
  let ?st = "(i, ''youtube.com/embed/'' @ s, caps)"
  let ?st' = "(i + 12, ''embed/'' @ s, caps)"
  have 1: "ms (Lit ''youtube.com/'') False ?st = [?st']"
    using ms_lit_append [of "''youtube.com/''" i "''embed/'' @ s" caps] by simp
  have 2: "ms (Lit ''youtu.be/'') False ?st = []"
    by (simp add: chr_eq_def)
  have 3: "ms path_alt False ?st' = []"
    by (rule path_alt_embed [OF no_slash [OF assms(2)]])
  have "ms (Alt path_alt (Alt embed_alt query_alt)) False ?st' = ms (Alt embed_alt query_alt) False ?st'"
    by (rule alt_nil_left [OF 3])
  also have "\<dots> = ms embed_alt False ?st'"
    by (rule alt_nil_right [OF query_alt_embed [OF assms(2)]])
  also have "\<dots> = [(i + 12 + 6, s, caps)]"
    by (rule embed_alt_embed)
  finally have 4: "ms (Seq (Lit ''youtube.com/'') (Alt path_alt (Alt embed_alt query_alt))) False ?st
      = [(i + 12 + 6, s, caps)]"
    by (simp only: seq_single [OF 1])
  have 5: "ms (Alt (Seq (Lit ''youtube.com/'') (Alt path_alt (Alt embed_alt query_alt))) (Lit ''youtu.be/'')) False ?st
      = [(i + 12 + 6, s, caps)]"
    by (simp only: alt_nil_right [OF 2] 4)
  show ?thesis
    unfolding videoIdRegex2_def
    by (simp only: seq_single [OF 5] id_group2 [OF assms]) simp
qed

lemma regex2_short:
  assumes "11 \<le> length s" and "\<And>c. c \<in> set s \<Longrightarrow> id_char c"
  shows "ms videoIdRegex2 False (i, ''youtu.be/'' @ s, caps)
    = [(i + 20, drop 11 s, (1, take 11 s) # caps)]"
proof -
  let ?st = "(i, ''youtu.be/'' @ s, caps)"
  have 1: "ms (Lit ''youtube.com/'') False ?st = []"
    by (simp add: chr_eq_def)
  have 2: "ms (Lit ''youtu.be/'') False ?st = [(i + 9, s, caps)]"
    using ms_lit_append [of "''youtu.be/''" i s caps] by simp
  have 5: "ms (Alt (Seq (Lit ''youtube.com/'') (Alt path_alt (Alt embed_alt query_alt))) (Lit ''youtu.be/'')) False ?st
      = [(i + 9, s, caps)]"
    by (simp only: alt_nil_left [OF seq_nil [OF 1]] 2)
  show ?thesis
    unfolding videoIdRegex2_def
    by (simp only: seq_single [OF 5] id_group2 [OF assms]) simp
qed

lemma id_run:
  assumes "11 \<le> length s" and "\<And>c. c \<in> set s \<Longrightarrow> id_char c"
  shows "ms (Times 11 (Cls id_class)) False (i, s, caps) = [(i + 11, drop 11 s, caps)]"
proof -
  have "list_all (in_class False id_class) (take 11 s)"
    unfolding list_all_iff using assms(2) by (metis id_char_def in_set_takeD)
  then show ?thesis
    using assms(1) by (simp add: times_cls [OF ms_one_eqs(1)] del: ms.simps(2,11))
qed

lemma regex1_skip:
  "c \<noteq> CHR ''y'' \<Longrightarrow> ms videoIdRegex False (i, c # cs, caps) = []"
  by (simp add: videoIdRegex_def chr_eq_def)

lemma regex1_watch:
  assumes "11 \<le> length s" and "\<And>c. c \<in> set s \<Longrightarrow> id_char c"
  shows "ms videoIdRegex False (i, ''youtube.com/watch?v='' @ s, caps)
    = [(i + 31, drop 11 s, (1, take 11 s) # caps)]"
  unfolding videoIdRegex_def
  by (simp add: id_run [OF assms] chr_eq_def capture_def del: ms.simps(11))

lemma regex1_short:
  assumes "11 \<le> length s" and "\<And>c. c \<in> set s \<Longrightarrow> id_char c"
  shows "ms videoIdRegex False (i, ''youtu.be/'' @ s, caps)
    = [(i + 20, drop 11 s, (1, take 11 s) # caps)]"
  unfolding videoIdRegex_def
  by (simp add: id_run [OF assms] chr_eq_def capture_def del: ms.simps(11))

lemma lit_needs_chars:
  "a \<in> set p \<Longrightarrow> a \<notin> set s \<Longrightarrow> lit False p (i, s, caps) = []"
proof (induction p arbitrary: s i)
  case Nil
  then show ?case by simp
next
  case (Cons b p)
  show ?case
  proof (cases s)
    case Nil
    then show ?thesis by simp
  next
    case (Cons c cs)
    show ?thesis
    proof (cases "b = c")
      case True
      with Cons.prems Cons have "a \<in> set p" "a \<notin> set cs" by auto
      then show ?thesis using Cons.IH [of cs "Suc i"] Cons by (simp add: chr_eq_def)
    next
      case False
      then show ?thesis using Cons by (simp add: chr_eq_def)
    qed
  qed
qed

lemma regex1_id_tail:
  assumes "\<And>c. c \<in> set s \<Longrightarrow> id_char c"
  shows "search videoIdRegex False i s = None"
  using assms
proof (induction s arbitrary: i)
  case Nil
  then show ?case by (simp add: videoIdRegex_def)
next
  case (Cons c cs)
  have "CHR ''/'' \<notin> set (c # cs)"
    using Cons.prems id_char_not_special(1) by blast
  then have "lit False ''youtube.com/watch?v='' (i, c # cs, []) = []"
    "lit False ''youtu.be/'' (i, c # cs, []) = []"
    by (simp_all only: lit_needs_chars [of "CHR ''/''"] list.set insert_iff simp_thms)
  then have "ms videoIdRegex False (i, c # cs, []) = []"
    by (simp add: videoIdRegex_def)
  then show ?case using Cons by simp
qed

lemma youtubeRegex_anchored:
  "search youtubeRegex False (Suc i) s = None"
  by (induction s arbitrary: i) (simp_all add: youtubeRegex_def)

lemma url_prefixes_no_y: "p \<in> set url_prefixes \<Longrightarrow> CHR ''y'' \<notin> set p"
  by (auto simp: url_prefixes_def)

lemma search_skip_prefix:
  assumes "\<And>c cs i. c \<noteq> x \<Longrightarrow> ms r ic (i, c # cs, []) = []" and "x \<notin> set p"
  shows "search r ic i (p @ s) = search r ic (i + length p) s"
  using assms(2)
proof (induction p arbitrary: i)
  case Nil
  then show ?case by simp
next
  case (Cons a p)
  then have ne: "a \<noteq> x" and rest: "x \<notin> set p" by auto
  have "search r ic i ((a # p) @ s) = search r ic (Suc i) (p @ s)"
    by (simp only: append_Cons search.simps(2) assms(1) [OF ne] list.case)
  also have "\<dots> = search r ic (Suc i + length p) s"
    by (rule Cons.IH [OF rest])
  finally show ?case by simp
qed

lemma search2_skip_prefix:
  assumes "CHR ''y'' \<notin> set p"
  shows "search videoIdRegex2 False i (p @ s) = search videoIdRegex2 False (i + length p) s"
  by (rule search_skip_prefix [OF _ assms]) (rule regex2_skip)

lemma search1_skip_prefix:
  assumes "CHR ''y'' \<notin> set p"
  shows "search videoIdRegex False i (p @ s) = search videoIdRegex False (i + length p) s"
  by (rule search_skip_prefix [OF _ assms]) (rule regex1_skip)

lemma extractVideoId2_watch:
  assumes "11 \<le> length s" and "\<And>c. c \<in> set s \<Longrightarrow> id_char c" and "CHR ''y'' \<notin> set p"
  shows "extractVideoId2 (p @ ''youtube.com/watch?v='' @ s) = Some (take 11 s)"
  using regex2_watch [OF assms(1,2), unfolded append_Cons append_Nil] search2_skip_prefix [OF assms(3)]
  by (simp add: extractVideoId2_def regex_match_def group_def del: ms.simps)

lemma extractVideoId2_embed:
  assumes "11 \<le> length s" and "\<And>c. c \<in> set s \<Longrightarrow> id_char c" and "CHR ''y'' \<notin> set p"
  shows "extractVideoId2 (p @ ''youtube.com/embed/'' @ s) = Some (take 11 s)"
  using regex2_embed [OF assms(1,2), unfolded append_Cons append_Nil] search2_skip_prefix [OF assms(3)]
  by (simp add: extractVideoId2_def regex_match_def group_def del: ms.simps)

lemma extractVideoId2_short:
  assumes "11 \<le> length s" and "\<And>c. c \<in> set s \<Longrightarrow> id_char c" and "CHR ''y'' \<notin> set p"
  shows "extractVideoId2 (p @ ''youtu.be/'' @ s) = Some (take 11 s)"
  using regex2_short [OF assms(1,2), unfolded append_Cons append_Nil] search2_skip_prefix [OF assms(3)]
  by (simp add: extractVideoId2_def regex_match_def group_def del: ms.simps)

lemma extractVideoId_watch:
  assumes "11 \<le> length s" and "\<And>c. c \<in> set s \<Longrightarrow> id_char c" and "CHR ''y'' \<notin> set p"
  shows "extractVideoId (p @ ''youtube.com/watch?v='' @ s) = Some (take 11 s)"
  using regex1_watch [OF assms(1,2), unfolded append_Cons append_Nil] search1_skip_prefix [OF assms(3)]
  by (simp add: extractVideoId_def regex_match_def group_def del: ms.simps)

lemma extractVideoId_short:
  assumes "11 \<le> length s" and "\<And>c. c \<in> set s \<Longrightarrow> id_char c" and "CHR ''y'' \<notin> set p"
  shows "extractVideoId (p @ ''youtu.be/'' @ s) = Some (take 11 s)"
  using regex1_short [OF assms(1,2), unfolded append_Cons append_Nil] search1_skip_prefix [OF assms(3)]
  by (simp add: extractVideoId_def regex_match_def group_def del: ms.simps)

lemma extractVideoId_embed:
  assumes "\<And>c. c \<in> set s \<Longrightarrow> id_char c" and "CHR ''y'' \<notin> set p"
  shows "extractVideoId (p @ ''youtube.com/embed/'' @ s) = None"
proof -
  have "ms videoIdRegex False (i, ''youtube.com/embed/'' @ s, []) = []" for i
    by (simp add: videoIdRegex_def chr_eq_def)
  from this [unfolded append_Cons append_Nil] show ?thesis
    using search1_skip_prefix [OF assms(2)]
    by (simp add: extractVideoId_def regex_match_def regex1_skip regex1_id_tail [OF assms(1)] del: ms.simps)
qed

lemma isValidYouTubeUrl_watch:
  assumes "11 \<le> length s" and "\<And>c. c \<in> set s \<Longrightarrow> id_char c" and "p \<in> set url_prefixes"
  shows "isValidYouTubeUrl (p @ ''youtube.com/watch?v='' @ s)"
  using assms(3)
  unfolding isValidYouTubeUrl_def regex_test_def youtubeRegex_def url_prefixes_def
  by (auto simp add: id_run [OF assms(1,2)] chr_eq_def capture_def rest_len_def simp del: ms.simps(11))

lemma isValidYouTubeUrl_short:
  assumes "11 \<le> length s" and "\<And>c. c \<in> set s \<Longrightarrow> id_char c" and "p \<in> set url_prefixes"
  shows "isValidYouTubeUrl (p @ ''youtu.be/'' @ s)"
  using assms(3)
  unfolding isValidYouTubeUrl_def regex_test_def youtubeRegex_def url_prefixes_def
  by (auto simp add: id_run [OF assms(1,2)] chr_eq_def capture_def rest_len_def simp del: ms.simps(11))

lemma isValidYouTubeUrl_embed:
  assumes "p \<in> set url_prefixes"
  shows "\<not> isValidYouTubeUrl (p @ ''youtube.com/embed/'' @ s)"
proof -
  have "ms youtubeRegex False (0, p @ ''youtube.com/embed/'' @ s, []) = []"
    using assms unfolding url_prefixes_def
    by (auto simp add: youtubeRegex_def chr_eq_def capture_def rest_len_def simp del: ms.simps(11))
  moreover obtain c cs where "p @ ''youtube.com/embed/'' @ s = c # cs"
    by (cases p) auto
  ultimately show ?thesis
    by (simp only: isValidYouTubeUrl_def regex_test_def
        search.simps(2) [of _ _ 0] youtubeRegex_anchored list.case simp_thms)
qed



lemma id_run_take:
  assumes "11 \<le> length s" and "\<And>c. c \<in> set (take 11 s) \<Longrightarrow> id_char c"
  shows "ms (Times 11 (Cls id_class)) False (i, s, caps) = [(i + 11, drop 11 s, caps)]"
proof -
  have "list_all (in_class False id_class) (take 11 s)"
    unfolding list_all_iff using assms(2) by (simp add: id_char_def)
  then show ?thesis
    using assms(1) by (simp add: times_cls [OF ms_one_eqs(1)] del: ms.simps(2,11))
qed

lemma id_group2_take:
  assumes "11 \<le> length s" and "\<And>c. c \<in> set (take 11 s) \<Longrightarrow> id_char c"
  shows "ms id_group2 False (i, s, caps) = [(i + 11, drop 11 s, (1, take 11 s) # caps)]"
proof -
  have "list_all (\<lambda>c. \<not> in_class False [C (CHR 0x22), C CHR ''&'', C CHR ''?'', C CHR ''/'', S] c) (take 11 s)"
    unfolding list_all_iff using assms(2) id_char_group2 by blast
  then show ?thesis
    using assms(1) by (simp add: times_cls [OF ms_one_eqs(2)] capture_def del: ms.simps(3,11))
qed

lemma lit_startsWith: "lit False p (i, s, caps) \<noteq> [] \<Longrightarrow> startsWith s p"
proof (induction p arbitrary: s i)
  case Nil
  then show ?case by simp
next
  case (Cons a p)
  then show ?case by (cases s) (auto simp: chr_eq_def split: if_splits)
qed

lemma startsWith_drop: "startsWith (drop k s) (a # p) \<Longrightarrow> str_includes s (a # p)"
proof (induction s arbitrary: k)
  case Nil
  then show ?case by simp
next
  case (Cons c cs)
  then show ?case by (cases k) auto
qed

lemma query_tail_needs:
  assumes "ms query_tail False (j, t, caps) \<noteq> []"
  shows "startsWith t ''?v='' \<or> startsWith t ''&v=''"
proof (cases t)
  case Nil
  with assms show ?thesis by simp
next
  case (Cons c cs)
  with assms have c: "c = CHR ''?'' \<or> c = CHR ''&''" and l: "lit False ''v='' (Suc j, cs, caps) \<noteq> []"
    by (auto simp: in_class_def split: if_splits)
  from lit_startsWith [OF l] c show ?thesis by (auto simp: Cons)
qed

lemma query_tail_nowhere:
  assumes "\<not> str_includes s ''?v=''" and "\<not> str_includes s ''&v=''"
  shows "concat (map (ms query_tail False) (star1 p (i, s, caps))) = []"
proof (rule concat_map_Nil)
  fix st assume "st \<in> set (star1 p (i, s, caps))"
  then obtain k where k: "st = (i + k, drop k s, caps)"
    using star1_states by blast
  show "ms query_tail False st = []"
  proof (rule ccontr)
    assume "ms query_tail False st \<noteq> []"
    then have "startsWith (drop k s) ''?v='' \<or> startsWith (drop k s) ''&v=''"
      unfolding k by (rule query_tail_needs)
    then show False using assms startsWith_drop by blast
  qed
qed

lemma no_marker_append:
  assumes "\<And>c. c \<in> set ident \<Longrightarrow> id_char c" and "\<not> id_char a" and "\<not> str_includes rest (a # q)"
  shows "\<not> str_includes (ident @ rest) (a # q)"
  using assms(1)
proof (induction ident)
  case Nil
  then show ?case using assms(3) by simp
next
  case (Cons c cs)
  then have "c \<noteq> a" using assms(2) by auto
  then show ?case using Cons by simp
qed

lemma query_alt_watch_rest:
  assumes "\<not> str_includes s ''?v=''" and "\<not> str_includes s ''&v=''"
  shows "ms query_alt False (i, ''watch?v='' @ s, caps) = [(i + 8, s, caps)]"
  using query_tail_nowhere [of s, OF assms]
  by (simp add: one_rules in_class_def chr_eq_def is_line_terminator_def code_def del: ms.simps(8,9))

lemma regex2_watch_rest:
  assumes "11 \<le> length s" and "\<And>c. c \<in> set (take 11 s) \<Longrightarrow> id_char c"
    and "CHR ''/'' \<notin> set s" and "\<not> str_includes s ''?v=''" and "\<not> str_includes s ''&v=''"
  shows "ms videoIdRegex2 False (i, ''youtube.com/watch?v='' @ s, caps)
    = [(i + 31, drop 11 s, (1, take 11 s) # caps)]"
proof -
  let ?st = "(i, ''youtube.com/watch?v='' @ s, caps)"
  let ?st' = "(i + 12, ''watch?v='' @ s, caps)"
  have 1: "ms (Lit ''youtube.com/'') False ?st = [?st']"
    using ms_lit_append [of "''youtube.com/''" i "''watch?v='' @ s" caps] by simp
  have 2: "ms (Lit ''youtu.be/'') False ?st = []"
    by (simp add: chr_eq_def)
  have 3: "ms path_alt False ?st' = []"
    by (rule path_alt_no_slash) (simp add: assms(3))
  have "ms (Alt path_alt (Alt embed_alt query_alt)) False ?st' = ms (Alt embed_alt query_alt) False ?st'"
    by (rule alt_nil_left [OF 3])
  also have "\<dots> = ms query_alt False ?st'"
    by (rule alt_nil_left [OF embed_alt_watch])
  also have "\<dots> = [(i + 12 + 8, s, caps)]"
    by (rule query_alt_watch_rest [OF assms(4,5)])
  finally have 4: "ms (Seq (Lit ''youtube.com/'') (Alt path_alt (Alt embed_alt query_alt))) False ?st
      = [(i + 12 + 8, s, caps)]"
    by (simp only: seq_single [OF 1])
  have 5: "ms (Alt (Seq (Lit ''youtube.com/'') (Alt path_alt (Alt embed_alt query_alt))) (Lit ''youtu.be/'')) False ?st
      = [(i + 12 + 8, s, caps)]"
    by (simp only: alt_nil_right [OF 2] 4)
  show ?thesis
    unfolding videoIdRegex2_def
    by (simp only: seq_single [OF 5] id_group2_take [OF assms(1,2)]) simp
qed

lemma regex2_short_rest:
  assumes "11 \<le> length s" and "\<And>c. c \<in> set (take 11 s) \<Longrightarrow> id_char c"
  shows "ms videoIdRegex2 False (i, ''youtu.be/'' @ s, caps)
    = [(i + 20, drop 11 s, (1, take 11 s) # caps)]"
proof -
  let ?st = "(i, ''youtu.be/'' @ s, caps)"
  have 1: "ms (Lit ''youtube.com/'') False ?st = []"
    by (simp add: chr_eq_def)
  have 2: "ms (Lit ''youtu.be/'') False ?st = [(i + 9, s, caps)]"
    using ms_lit_append [of "''youtu.be/''" i s caps] by simp
  have 5: "ms (Alt (Seq (Lit ''youtube.com/'') (Alt path_alt (Alt embed_alt query_alt))) (Lit ''youtu.be/'')) False ?st
      = [(i + 9, s, caps)]"
    by (simp only: alt_nil_left [OF seq_nil [OF 1]] 2)
  show ?thesis
    unfolding videoIdRegex2_def
    by (simp only: seq_single [OF 5] id_group2_take [OF assms]) simp
qed

lemma regex1_watch_rest:
  assumes "11 \<le> length s" and "\<And>c. c \<in> set (take 11 s) \<Longrightarrow> id_char c"
  shows "ms videoIdRegex False (i, ''youtube.com/watch?v='' @ s, caps)
    = [(i + 31, drop 11 s, (1, take 11 s) # caps)]"
  unfolding videoIdRegex_def
  by (simp add: id_run_take [OF assms] chr_eq_def capture_def del: ms.simps(11))

lemma regex1_short_rest:
  assumes "11 \<le> length s" and "\<And>c. c \<in> set (take 11 s) \<Longrightarrow> id_char c"
  shows "ms videoIdRegex False (i, ''youtu.be/'' @ s, caps)
    = [(i + 20, drop 11 s, (1, take 11 s) # caps)]"
  unfolding videoIdRegex_def
  by (simp add: id_run_take [OF assms] chr_eq_def capture_def del: ms.simps(11))

lemma extractVideoId2_watch_rest:
  assumes "11 \<le> length s" and "\<And>c. c \<in> set (take 11 s) \<Longrightarrow> id_char c"
    and "CHR ''/'' \<notin> set s" and "\<not> str_includes s ''?v=''" and "\<not> str_includes s ''&v=''"
    and "CHR ''y'' \<notin> set p"
  shows "extractVideoId2 (p @ ''youtube.com/watch?v='' @ s) = Some (take 11 s)"
  using regex2_watch_rest [OF assms(1-5), unfolded append_Cons append_Nil] search2_skip_prefix [OF assms(6)]
  by (simp add: extractVideoId2_def regex_match_def group_def del: ms.simps)

lemma extractVideoId2_short_rest:
  assumes "11 \<le> length s" and "\<And>c. c \<in> set (take 11 s) \<Longrightarrow> id_char c" and "CHR ''y'' \<notin> set p"
  shows "extractVideoId2 (p @ ''youtu.be/'' @ s) = Some (take 11 s)"
  using regex2_short_rest [OF assms(1,2), unfolded append_Cons append_Nil] search2_skip_prefix [OF assms(3)]
  by (simp add: extractVideoId2_def regex_match_def group_def del: ms.simps)

lemma extractVideoId_watch_rest:
  assumes "11 \<le> length s" and "\<And>c. c \<in> set (take 11 s) \<Longrightarrow> id_char c" and "CHR ''y'' \<notin> set p"
  shows "extractVideoId (p @ ''youtube.com/watch?v='' @ s) = Some (take 11 s)"
  using regex1_watch_rest [OF assms(1,2), unfolded append_Cons append_Nil] search1_skip_prefix [OF assms(3)]
  by (simp add: extractVideoId_def regex_match_def group_def del: ms.simps)

lemma extractVideoId_short_rest:
  assumes "11 \<le> length s" and "\<And>c. c \<in> set (take 11 s) \<Longrightarrow> id_char c" and "CHR ''y'' \<notin> set p"
  shows "extractVideoId (p @ ''youtu.be/'' @ s) = Some (take 11 s)"
  using regex1_short_rest [OF assms(1,2), unfolded append_Cons append_Nil] search1_skip_prefix [OF assms(3)]
  by (simp add: extractVideoId_def regex_match_def group_def del: ms.simps)

lemma isValidYouTubeUrl_watch_rest:
  assumes "11 \<le> length s" and "\<And>c. c \<in> set (take 11 s) \<Longrightarrow> id_char c" and "p \<in> set url_prefixes"
  shows "isValidYouTubeUrl (p @ ''youtube.com/watch?v='' @ s)"
  using assms(3)
  unfolding isValidYouTubeUrl_def regex_test_def youtubeRegex_def url_prefixes_def
  by (auto simp add: id_run_take [OF assms(1,2)] chr_eq_def capture_def rest_len_def simp del: ms.simps(11))

lemma isValidYouTubeUrl_short_rest:
  assumes "11 \<le> length s" and "\<And>c. c \<in> set (take 11 s) \<Longrightarrow> id_char c" and "p \<in> set url_prefixes"
  shows "isValidYouTubeUrl (p @ ''youtu.be/'' @ s)"
  using assms(3)
  unfolding isValidYouTubeUrl_def regex_test_def youtubeRegex_def url_prefixes_def
  by (auto simp add: id_run_take [OF assms(1,2)] chr_eq_def capture_def rest_len_def simp del: ms.simps(11))

section \<open>Claims about the reference classifiers\<close>

text \<open>
  C2. For an identifier of 11 characters from \<open>[A-Za-z0-9_-]\<close>, the three URL shapes
  \<open>watch?v=ID\<close>, \<open>youtu.be/ID\<close> and \<open>embed/ID\<close> (with or without a scheme and
  \<open>www.\<close>) classify to the same identifier \<open>ID\<close>. This holds for \<open>extractVideoId\<close> of
  \<open>src/unnamed/part_000\<close>. The classifier of \<open>src/api/ytmp3.js\<close> (and the pattern of
  \<open>src/index.js\<close>) accepts \<open>watch?v=ID\<close> and \<open>youtu.be/ID\<close> with the identifier \<open>ID\<close>,
  and rejects \<open>embed/ID\<close>.
\<close>

theorem C2_canonical_shapes:
  assumes "length ident = 11" and "\<forall>c\<in>set ident. id_char c" and "p \<in> set url_prefixes"
  shows "extractVideoId2 (p @ ''youtube.com/watch?v='' @ ident) = Some ident
    \<and> extractVideoId2 (p @ ''youtu.be/'' @ ident) = Some ident
    \<and> extractVideoId2 (p @ ''youtube.com/embed/'' @ ident) = Some ident
    \<and> isValidYouTubeUrl (p @ ''youtube.com/watch?v='' @ ident)
    \<and> extractVideoId (p @ ''youtube.com/watch?v='' @ ident) = Some ident
    \<and> isValidYouTubeUrl (p @ ''youtu.be/'' @ ident)
    \<and> extractVideoId (p @ ''youtu.be/'' @ ident) = Some ident
    \<and> \<not> isValidYouTubeUrl (p @ ''youtube.com/embed/'' @ ident)
    \<and> extractVideoId (p @ ''youtube.com/embed/'' @ ident) = None"
proof -
  have len: "11 \<le> length ident" using assms(1) by simp
  have ids: "\<And>c. c \<in> set ident \<Longrightarrow> id_char c" using assms(2) by blast
  have y: "CHR ''y'' \<notin> set p" using assms(3) by (rule url_prefixes_no_y)
  have whole: "take 11 ident = ident" using assms(1) by simp
  show ?thesis
    using extractVideoId2_watch [OF len ids y] extractVideoId2_short [OF len ids y]
      extractVideoId2_embed [OF len ids y] isValidYouTubeUrl_watch [OF len ids assms(3)]
      extractVideoId_watch [OF len ids y] isValidYouTubeUrl_short [OF len ids assms(3)]
      extractVideoId_short [OF len ids y] isValidYouTubeUrl_embed [OF assms(3), of ident]
      extractVideoId_embed [OF ids y]
    by (simp only: whole simp_thms)
qed

theorem C2_canonical_shapes_witness:
  "extractVideoId2 ''https://www.youtube.com/watch?v=dQw4w9WgXcQ'' = Some ''dQw4w9WgXcQ''
    \<and> extractVideoId2 ''https://www.youtu.be/dQw4w9WgXcQ'' = Some ''dQw4w9WgXcQ''
    \<and> extractVideoId2 ''https://www.youtube.com/embed/dQw4w9WgXcQ'' = Some ''dQw4w9WgXcQ''
    \<and> isValidYouTubeUrl ''https://www.youtube.com/watch?v=dQw4w9WgXcQ''
    \<and> extractVideoId ''https://www.youtube.com/watch?v=dQw4w9WgXcQ'' = Some ''dQw4w9WgXcQ''
    \<and> isValidYouTubeUrl ''https://www.youtu.be/dQw4w9WgXcQ''
    \<and> extractVideoId ''https://www.youtu.be/dQw4w9WgXcQ'' = Some ''dQw4w9WgXcQ''"
proof -
  have 1: "length ''dQw4w9WgXcQ'' = 11" by simp
  have 2: "\<forall>c\<in>set ''dQw4w9WgXcQ''. id_char c" by (simp add: id_char_iff code_def)
  have 3: "''https://www.'' \<in> set url_prefixes" by (simp add: url_prefixes_def)
  show ?thesis using C2_canonical_shapes [OF 1 2 3] by simp
qed

theorem C2_embed_counterexample:
  "\<not> isValidYouTubeUrl ''https://www.youtube.com/embed/dQw4w9WgXcQ''
    \<and> extractVideoId ''https://www.youtube.com/embed/dQw4w9WgXcQ'' = None"
  by code_simp

text \<open>
  C10. Take a URL made of a prefix without the letter \<open>y\<close> (such as a scheme and
  \<open>www.\<close>), then \<open>youtube.com/watch?v=\<close> or \<open>youtu.be/\<close>, then an identifier segment of
  more than 11 characters from \<open>[A-Za-z0-9_-]\<close>, then anything. \<open>src/api/ytmp3.js\<close>
  extracts the first 11 characters of the segment and, for the six prefixes that
  \<open>isValidYouTubeUrl\<close> allows, accepts the URL. \<open>src/unnamed/part_000\<close> extracts the
  first 11 characters after \<open>youtu.be/\<close>, and after \<open>watch?v=\<close> when what follows the
  segment has no \<open>/\<close> and no further \<open>?v=\<close> or \<open>&v=\<close>. The over-long identifier is
  never rejected.
\<close>

theorem C10_overlong_identifier:
  assumes "11 < length ident" and "\<forall>c\<in>set ident. id_char c" and "CHR ''y'' \<notin> set p"
  shows "extractVideoId (p @ ''youtube.com/watch?v='' @ ident @ rest) = Some (take 11 ident)
    \<and> extractVideoId (p @ ''youtu.be/'' @ ident @ rest) = Some (take 11 ident)
    \<and> (p \<in> set url_prefixes \<longrightarrow>
         isValidYouTubeUrl (p @ ''youtube.com/watch?v='' @ ident @ rest)
       \<and> isValidYouTubeUrl (p @ ''youtu.be/'' @ ident @ rest))
    \<and> extractVideoId2 (p @ ''youtu.be/'' @ ident @ rest) = Some (take 11 ident)
    \<and> (CHR ''/'' \<notin> set rest \<and> \<not> str_includes rest ''?v='' \<and> \<not> str_includes rest ''&v='' \<longrightarrow>
         extractVideoId2 (p @ ''youtube.com/watch?v='' @ ident @ rest) = Some (take 11 ident))"
proof -
  have len: "11 \<le> length (ident @ rest)" using assms(1) by simp
  have tk: "take 11 (ident @ rest) = take 11 ident" using assms(1) by simp
  have all: "\<And>c. c \<in> set ident \<Longrightarrow> id_char c" using assms(2) by blast
  have ids: "\<And>c. c \<in> set (take 11 (ident @ rest)) \<Longrightarrow> id_char c"
    unfolding tk using all by (meson in_set_takeD)
  have special: "\<not> id_char CHR ''?''" "\<not> id_char CHR ''&''"
    using id_char_not_special(2,3) by blast+
  have w2: "extractVideoId2 (p @ ''youtube.com/watch?v='' @ ident @ rest) = Some (take 11 ident)"
    if r: "CHR ''/'' \<notin> set rest" "\<not> str_includes rest ''?v=''" "\<not> str_includes rest ''&v=''"
  proof -
    have 1: "CHR ''/'' \<notin> set (ident @ rest)" using r(1) no_slash [OF all] by simp
    have 2: "\<not> str_includes (ident @ rest) ''?v=''"
      by (rule no_marker_append [OF all special(1) r(2)])
    have 3: "\<not> str_includes (ident @ rest) ''&v=''"
      by (rule no_marker_append [OF all special(2) r(3)])
    show ?thesis
      using extractVideoId2_watch_rest [OF len ids 1 2 3 assms(3)] by (simp only: tk)
  qed
  show ?thesis
    using extractVideoId_watch_rest [OF len ids assms(3)] extractVideoId_short_rest [OF len ids assms(3)]
      isValidYouTubeUrl_watch_rest [OF len ids] isValidYouTubeUrl_short_rest [OF len ids]
      extractVideoId2_short_rest [OF len ids assms(3)] w2
    by (simp only: tk simp_thms) blast
qed

theorem C10_overlong_identifier_witness:
  "extractVideoId ''https://www.youtube.com/watch?v=dQw4w9WgXcQ_extra&t=42s'' = Some ''dQw4w9WgXcQ''
    \<and> extractVideoId ''https://www.youtu.be/dQw4w9WgXcQ_extra&t=42s'' = Some ''dQw4w9WgXcQ''
    \<and> isValidYouTubeUrl ''https://www.youtube.com/watch?v=dQw4w9WgXcQ_extra&t=42s''
    \<and> isValidYouTubeUrl ''https://www.youtu.be/dQw4w9WgXcQ_extra&t=42s''
    \<and> extractVideoId2 ''https://www.youtu.be/dQw4w9WgXcQ_extra&t=42s'' = Some ''dQw4w9WgXcQ''
    \<and> extractVideoId2 ''https://www.youtube.com/watch?v=dQw4w9WgXcQ_extra&t=42s'' = Some ''dQw4w9WgXcQ''"
proof -
  have 1: "11 < length ''dQw4w9WgXcQ_extra''" by simp
  have 2: "\<forall>c\<in>set ''dQw4w9WgXcQ_extra''. id_char c" by (simp add: id_char_iff code_def)
  have 3: "CHR ''y'' \<notin> set ''https://www.''" by simp
  have 4: "''https://www.'' \<in> set url_prefixes" by (simp add: url_prefixes_def)
  have 5: "CHR ''/'' \<notin> set ''&t=42s'' \<and> \<not> str_includes ''&t=42s'' ''?v='' \<and> \<not> str_includes ''&t=42s'' ''&v=''"
    by simp
  show ?thesis
    using C10_overlong_identifier [OF 1 2 3, of "''&t=42s''"] 4 5 by simp
qed

theorem C10_last_parameter_counterexample:
  "extractVideoId2 ''https://www.youtube.com/watch?v=AAAAAAAAAAAA&v=BBBBBBBBBBB'' = Some ''BBBBBBBBBBB''
   \<and> take 11 ''AAAAAAAAAAAA'' = ''AAAAAAAAAAA''
   \<and> extractVideoId2 ''https://example.com/watch?v=AAAAAAAAAAAA'' = None
   \<and> extractVideoId ''https://example.com/watch?v=AAAAAAAAAAAA'' = None
   \<and> isValidYouTubeUrl ''https://example.com/watch?v=AAAAAAAAAAAA'' = False"
  by code_simp

section \<open>Claims about the file name\<close>

lemma code_char_of: "code (char_of n) = n mod 256"
  by (simp add: code_def)

lemma word_space_ci:
  "in_class True [W, S] c \<longleftrightarrow> is_word c \<or> is_space c"
proof -
  have eqs: "c = CHR ''_'' \<longleftrightarrow> code c = 95" for c
    unfolding code_def by (metis of_char_eq_iff code_simps(7) code_def)
  have up: "is_word (to_upper c) \<Longrightarrow> is_word c"
    by (auto simp: is_word_def in_range_def to_upper_def code_char_of code_simps eqs split: if_splits)
  have lo: "is_word (to_lower c) \<Longrightarrow> is_word c"
    by (auto simp: is_word_def in_range_def to_lower_def code_char_of code_simps eqs split: if_splits)
  have ups: "is_space (to_upper c) \<Longrightarrow> is_space c"
    by (auto simp: is_space_def to_upper_def code_char_of split: if_splits)
  have los: "is_space (to_lower c) \<Longrightarrow> is_space c"
    by (auto simp: is_space_def to_lower_def code_char_of split: if_splits)
  show ?thesis
    using up lo ups los by (auto simp: in_class_def)
qed

lemma replace_all_ncls:
  "replace_all (NCls its) ic [] i s = filter (in_class ic its) s"
  by (induction s arbitrary: i) simp_all

lemma sanitize_filter: "sanitize t = filter (\<lambda>c. is_word c \<or> is_space c) t"
  unfolding sanitize_def replace_all_ncls
  by (rule filter_cong [OF refl]) (simp add: word_space_ci)

text \<open>
  C7. The file name keeps exactly the characters of the title that are in the word class
  or the white-space class, in their order (so the spacing stays), and drops every other
  character; the title \<open>Test: Movie? #1\<close> becomes \<open>Test Movie 1\<close>.
\<close>

theorem C7_sanitize:
  "sanitize t = filter (\<lambda>c. is_word c \<or> is_space c) t
   \<and> sanitize ''Test: Movie? #1'' = ''Test Movie 1''"
proof -
  have "sanitize ''Test: Movie? #1'' = ''Test Movie 1''"
    by (simp add: sanitize_filter is_word_def is_space_def in_range_def code_def)
  then show ?thesis by (simp add: sanitize_filter)
qed

theorem C7_sanitize_witness:
  "sanitize ''AC/DC - Back In Black (1980)!'' = ''ACDC  Back In Black 1980''"
  using C7_sanitize [of "''AC/DC - Back In Black (1980)!''"]
  by (simp add: is_word_def is_space_def in_range_def code_def)

section \<open>Claims about the audio strategies\<close>

lemma truthy_present: "truthy v \<Longrightarrow> present_nonempty v"
  by (cases v) (simp_all add: present_nonempty_def)

lemma ytmp3free_complete:
  "status_ok (ytmp3free net url) \<Longrightarrow>
     truthy (get_prop (ytmp3free net url) ''title'') \<and> truthy (get_prop (ytmp3free net url) ''mp3'')"
  by (auto simp: status_ok_def ytmp3free_def Let_def split: sum.splits if_splits)

lemma ytmp3free2_complete:
  "status_ok (fst (ytmp3free2 net url)) \<Longrightarrow>
     truthy (get_prop (fst (ytmp3free2 net url)) ''title'') \<and> truthy (get_prop (fst (ytmp3free2 net url)) ''mp3'')"
  by (auto simp: status_ok_def ytmp3free2_def Let_def split: sum.splits if_splits option.splits)

lemma alternativeService_complete:
  "status_ok (alternativeService net url) \<Longrightarrow>
     truthy (get_prop (alternativeService net url) ''title'') \<and> truthy (get_prop (alternativeService net url) ''mp3'')"
  by (auto simp: status_ok_def alternativeService_def Let_def split: sum.splits if_splits option.splits)

lemma getMP3Info_cases:
  "fst (getMP3Info net url) =
     (if status_ok (fst (ytmp3free2 net url)) then fst (ytmp3free2 net url) else alternativeService net url)"
  by (simp add: getMP3Info_def status_ok_def split: prod.splits)

lemma getMP3Info_complete:
  "status_ok (fst (getMP3Info net url)) \<Longrightarrow>
     truthy (get_prop (fst (getMP3Info net url)) ''title'') \<and> truthy (get_prop (fst (getMP3Info net url)) ''mp3'')"
  using ytmp3free2_complete [of net url] alternativeService_complete [of net url]
  by (simp add: getMP3Info_cases split: if_splits)

lemma example_id: "extractVideoId2 ''https://youtu.be/ArkDQvI_OPE'' = Some ''ArkDQvI_OPE''"
  by code_simp

lemma extractVideoId2_Nil: "extractVideoId2 [] = None"
  by code_simp

lemma alternativeService_failure:
  "\<not> status_ok (alternativeService net url) \<Longrightarrow>
     alternativeService net url = JObj [(''status'', JBool False), (''msg'', JStr ''Alternative service failed'')]
   \<or> alternativeService net url = JObj [(''status'', JBool False), (''msg'', JStr ''Alternative service error'')]"
  by (auto simp: status_ok_def alternativeService_def Let_def split: sum.splits if_splits)

lemma primary_log_no_notice:
  "primary_failed_line \<notin> set (snd (ytmp3free2 net url))"
  by (auto simp: ytmp3free2_def primary_failed_line_def Let_def split: option.splits sum.splits)

lemma getMP3Info_log:
  "snd (getMP3Info net url) =
     (if status_ok (fst (ytmp3free2 net url)) then snd (ytmp3free2 net url)
      else snd (ytmp3free2 net url) @ [primary_failed_line])"
  by (simp add: getMP3Info_def status_ok_def primary_failed_line_def split: prod.splits)

text \<open>
  C1. When both strategies fail, \<open>getMP3Info\<close> returns the failure object of the
  alternative service alone: its \<open>status\<close> is \<open>false\<close> and its one message is
  \<open>Alternative service failed\<close> or \<open>Alternative service error\<close>. The result is never a
  success and the reason of the primary strategy is not part of it. The handler answers
  with HTTP status 500 and that object, to which it adds \<open>videoId\<close> and \<open>note\<close>.
\<close>

theorem C1_all_strategies_fail:
  assumes "\<not> status_ok (fst (ytmp3free2 net url))" and "\<not> status_ok (alternativeService net url)"
  shows "fst (getMP3Info net url) = alternativeService net url
    \<and> \<not> status_ok (fst (getMP3Info net url))
    \<and> (fst (getMP3Info net url) = JObj [(''status'', JBool False), (''msg'', JStr ''Alternative service failed'')]
       \<or> fst (getMP3Info net url) = JObj [(''status'', JBool False), (''msg'', JStr ''Alternative service error'')])
    \<and> (\<forall>vid. extractVideoId2 url = Some vid \<longrightarrow>
         api_mp3 net (Some url)
           = (500, JObj (own_props (fst (getMP3Info net url)) @ [(''videoId'', JStr vid), (''note'', service_note)])))"
proof -
  have r: "fst (getMP3Info net url) = alternativeService net url"
    using assms(1) by (simp add: getMP3Info_cases)
  have h: "api_mp3 net (Some url)
      = (500, JObj (own_props (fst (getMP3Info net url)) @ [(''videoId'', JStr vid), (''note'', service_note)]))"
    if v: "extractVideoId2 url = Some vid" for vid
  proof -
    have "url \<noteq> []" using v extractVideoId2_Nil by auto
    then show ?thesis
      using v assms(2) alternativeService_failure [OF assms(2)]
      by (auto simp add: api_mp3_def r status_ok_def Let_def service_note_def)
  qed
  show ?thesis
    using r assms(2) alternativeService_failure [OF assms(2)] h by auto
qed

theorem C1_all_strategies_fail_witness:
  "fst (getMP3Info net_down ''https://youtu.be/ArkDQvI_OPE'')
     = JObj [(''status'', JBool False), (''msg'', JStr ''Alternative service error'')]
   \<and> api_mp3 net_down (Some ''https://youtu.be/ArkDQvI_OPE'')
     = (500, JObj [(''status'', JBool False), (''msg'', JStr ''Alternative service error''),
                   (''videoId'', JStr ''ArkDQvI_OPE''),
                   (''note'', JStr ''The service might be temporarily down. Please try again later.'')])"
proof -
  have 1: "\<not> status_ok (fst (ytmp3free2 net_down ''https://youtu.be/ArkDQvI_OPE''))"
    by (simp add: status_ok_def ytmp3free2_def example_id net_down_def)
  have 2: "alternativeService net_down ''https://youtu.be/ArkDQvI_OPE''
      = JObj [(''status'', JBool False), (''msg'', JStr ''Alternative service error'')]"
    by (simp add: alternativeService_def example_id net_down_def)
  have 3: "\<not> status_ok (alternativeService net_down ''https://youtu.be/ArkDQvI_OPE'')"
    by (simp add: 2 status_ok_def)
  show ?thesis
    using C1_all_strategies_fail [OF 1 3] example_id by (simp add: 2 service_note_def)
qed

theorem C1_reasons_counterexample:
  "fst (ytmp3free2 net_down ''https://youtu.be/ArkDQvI_OPE'')
     = JObj [(''status'', JBool False), (''error'', JStr ''ETIMEDOUT''),
             (''msg'', JStr ''Service temporarily unavailable'')]
   \<and> alternativeService net_down ''https://youtu.be/ArkDQvI_OPE''
     = JObj [(''status'', JBool False), (''msg'', JStr ''Alternative service error'')]
   \<and> fst (getMP3Info net_down ''https://youtu.be/ArkDQvI_OPE'')
     = JObj [(''status'', JBool False), (''msg'', JStr ''Alternative service error'')]"
  by (simp add: getMP3Info_def ytmp3free2_def alternativeService_def example_id net_down_def)

text \<open>
  C3. When the primary strategy fails and the alternative succeeds, \<open>getMP3Info\<close> returns
  the result of the alternative, which carries no failure message (no \<open>msg\<close>, no
  \<open>error\<close>). The console receives the lines of the primary strategy and then exactly one
  line \<open>Primary service failed, trying alternative...\<close>. The lines of the primary are:
  none when the URL has no video id; \<open>Fetching from:\<close> and \<open>ytmp3free error:\<close> with the
  message of the error when the request threw; \<open>Fetching from:\<close> and \<open>Raw response:\<close> with
  the response when the response lacked a field.
\<close>

theorem C3_fallback_to_second:
  assumes "\<not> status_ok (fst (ytmp3free2 net url))" and "status_ok (alternativeService net url)"
  shows "fst (getMP3Info net url) = alternativeService net url
    \<and> status_ok (fst (getMP3Info net url))
    \<and> get_prop (fst (getMP3Info net url)) ''msg'' = JUndefined
    \<and> get_prop (fst (getMP3Info net url)) ''error'' = JUndefined
    \<and> snd (getMP3Info net url) = snd (ytmp3free2 net url) @ [primary_failed_line]
    \<and> length (filter (\<lambda>e. e = primary_failed_line) (snd (getMP3Info net url))) = 1
    \<and> (extractVideoId2 url = None \<longrightarrow> snd (getMP3Info net url) = [primary_failed_line])
    \<and> (\<forall>vid m. extractVideoId2 url = Some vid \<and> net (''https://ytmp3free.cc/@api/json/mp3/'' @ vid) = Inl m
         \<longrightarrow> snd (getMP3Info net url)
           = [fetching_line vid, LogError [JStr ''ytmp3free error:'', JStr m], primary_failed_line])
    \<and> (\<forall>vid data. extractVideoId2 url = Some vid \<and> net (''https://ytmp3free.cc/@api/json/mp3/'' @ vid) = Inr data
         \<longrightarrow> snd (getMP3Info net url)
           = [fetching_line vid, Log [JStr ''Raw response:'', data], primary_failed_line])"
proof -
  have r: "fst (getMP3Info net url) = alternativeService net url"
    using assms(1) by (simp add: getMP3Info_cases)
  have l: "snd (getMP3Info net url) = snd (ytmp3free2 net url) @ [primary_failed_line]"
    using assms(1) by (simp add: getMP3Info_log)
  have none: "filter (\<lambda>e. e = primary_failed_line) (snd (ytmp3free2 net url)) = []"
    using primary_log_no_notice [of net url] by (auto simp: filter_empty_conv)
  have fields: "get_prop (alternativeService net url) ''msg'' = JUndefined"
    "get_prop (alternativeService net url) ''error'' = JUndefined"
    using assms(2)
    by (auto simp: status_ok_def alternativeService_def Let_def split: sum.splits if_splits)
  have lines: "extractVideoId2 url = None \<Longrightarrow> snd (ytmp3free2 net url) = []"
    "\<And>vid m. extractVideoId2 url = Some vid \<Longrightarrow> net (''https://ytmp3free.cc/@api/json/mp3/'' @ vid) = Inl m
       \<Longrightarrow> snd (ytmp3free2 net url) = [fetching_line vid, LogError [JStr ''ytmp3free error:'', JStr m]]"
    "\<And>vid data. extractVideoId2 url = Some vid \<Longrightarrow> net (''https://ytmp3free.cc/@api/json/mp3/'' @ vid) = Inr data
       \<Longrightarrow> snd (ytmp3free2 net url) = [fetching_line vid, Log [JStr ''Raw response:'', data]]"
    by (simp_all add: ytmp3free2_def fetching_line_def Let_def)
  show ?thesis
    using assms(2) lines by (simp add: r l none fields)
qed

theorem C3_fallback_to_second_witness:
  "fst (getMP3Info net_secondary ''https://youtu.be/ArkDQvI_OPE'')
     = JObj [(''status'', JBool True), (''title'', JStr ''YouTube Video ArkDQvI_OPE''),
             (''thumb'', JStr ''https://i.ytimg.com/vi/ArkDQvI_OPE/maxresdefault.jpg''),
             (''mp3'', JStr ''https://cdn/x.mp3''), (''source'', JStr ''vevioz.com''),
             (''videoId'', JStr ''ArkDQvI_OPE'')]
   \<and> snd (getMP3Info net_secondary ''https://youtu.be/ArkDQvI_OPE'')
     = [fetching_line ''ArkDQvI_OPE'', Log [JStr ''Raw response:'', JObj [(''title'', JStr ''T'')]],
        primary_failed_line]
   \<and> snd (getMP3Info net_hard ''https://youtu.be/ArkDQvI_OPE'')
     = [fetching_line ''ArkDQvI_OPE'', LogError [JStr ''ytmp3free error:'', JStr ''ETIMEDOUT''],
        primary_failed_line]"
proof -
  let ?u = "''https://youtu.be/ArkDQvI_OPE''"
  have 1: "\<not> status_ok (fst (ytmp3free2 net_secondary ?u))"
    by (simp add: status_ok_def ytmp3free2_def example_id net_secondary_def)
  have 2: "alternativeService net_secondary ?u
      = JObj [(''status'', JBool True), (''title'', JStr ''YouTube Video ArkDQvI_OPE''),
             (''thumb'', JStr ''https://i.ytimg.com/vi/ArkDQvI_OPE/maxresdefault.jpg''),
             (''mp3'', JStr ''https://cdn/x.mp3''), (''source'', JStr ''vevioz.com''),
             (''videoId'', JStr ''ArkDQvI_OPE'')]"
    by (simp add: alternativeService_def example_id net_secondary_def)
  have 3: "status_ok (alternativeService net_secondary ?u)"
    by (simp add: 2 status_ok_def)
  have 4: "net_secondary (''https://ytmp3free.cc/@api/json/mp3/'' @ ''ArkDQvI_OPE'') = Inr (JObj [(''title'', JStr ''T'')])"
    by (simp add: net_secondary_def)
  have 5: "\<not> status_ok (fst (ytmp3free2 net_hard ?u))"
    by (simp add: status_ok_def ytmp3free2_def example_id net_hard_def)
  have 6: "status_ok (alternativeService net_hard ?u)"
    by (simp add: alternativeService_def example_id net_hard_def status_ok_def)
  have 7: "net_hard (''https://ytmp3free.cc/@api/json/mp3/'' @ ''ArkDQvI_OPE'') = Inl ''ETIMEDOUT''"
    by (simp add: net_hard_def)
  note s = C3_fallback_to_second [OF 1 3]
  note h = C3_fallback_to_second [OF 5 6]
  from s have a: "fst (getMP3Info net_secondary ?u) = alternativeService net_secondary ?u"
    by (rule conjunct1)
  from s example_id 4 have b: "snd (getMP3Info net_secondary ?u)
     = [fetching_line ''ArkDQvI_OPE'', Log [JStr ''Raw response:'', JObj [(''title'', JStr ''T'')]],
        primary_failed_line]"
    by blast
  from h example_id 7 have c: "snd (getMP3Info net_hard ?u)
     = [fetching_line ''ArkDQvI_OPE'', LogError [JStr ''ytmp3free error:'', JStr ''ETIMEDOUT''],
        primary_failed_line]"
    by blast
  show ?thesis
    by (simp only: a 2 b c simp_thms)
qed

theorem C3_reason_dropped_counterexample:
  "fst (ytmp3free2 net_secondary ''https://youtu.be/ArkDQvI_OPE'')
     = JObj [(''status'', JBool False), (''msg'', JStr ''No data received from service''),
             (''rawData'', JObj [(''title'', JStr ''T'')])]
   \<and> getMP3Info net_secondary ''https://youtu.be/ArkDQvI_OPE''
     = (JObj [(''status'', JBool True), (''title'', JStr ''YouTube Video ArkDQvI_OPE''),
             (''thumb'', JStr ''https://i.ytimg.com/vi/ArkDQvI_OPE/maxresdefault.jpg''),
             (''mp3'', JStr ''https://cdn/x.mp3''), (''source'', JStr ''vevioz.com''),
             (''videoId'', JStr ''ArkDQvI_OPE'')],
        [Log [JStr ''Fetching from:'', JStr ''https://ytmp3free.cc/@api/json/mp3/ArkDQvI_OPE''],
         Log [JStr ''Raw response:'', JObj [(''title'', JStr ''T'')]],
         Log [JStr ''Primary service failed, trying alternative...'']])"
  by (simp add: getMP3Info_def ytmp3free2_def alternativeService_def example_id net_secondary_def)

text \<open>
  C4. Every result of a strategy (\<open>ytmp3free\<close> of either program, \<open>alternativeService\<close>)
  and of \<open>getMP3Info\<close> whose \<open>status\<close> is a success has a \<open>title\<close> and an \<open>mp3\<close> link
  that are present and non-empty.
\<close>

theorem C4_success_has_title_and_mp3:
  assumes "r = ytmp3free net url \<or> r = fst (ytmp3free2 net url) \<or> r = alternativeService net url
    \<or> r = fst (getMP3Info net url)"
    and "status_ok r"
  shows "truthy (get_prop r ''title'') \<and> truthy (get_prop r ''mp3'')
    \<and> present_nonempty (get_prop r ''title'') \<and> present_nonempty (get_prop r ''mp3'')"
  using assms ytmp3free_complete [of net url] ytmp3free2_complete [of net url]
    alternativeService_complete [of net url] getMP3Info_complete [of net url]
  by (auto intro: truthy_present)

theorem C4_success_has_title_and_mp3_witness:
  "truthy (get_prop (fst (getMP3Info net_primary ''https://youtu.be/ArkDQvI_OPE'')) ''title'')
   \<and> truthy (get_prop (fst (getMP3Info net_primary ''https://youtu.be/ArkDQvI_OPE'')) ''mp3'')
   \<and> present_nonempty (get_prop (fst (getMP3Info net_primary ''https://youtu.be/ArkDQvI_OPE'')) ''title'')
   \<and> present_nonempty (get_prop (fst (getMP3Info net_primary ''https://youtu.be/ArkDQvI_OPE'')) ''mp3'')"
proof -
  have 1: "status_ok (fst (getMP3Info net_primary ''https://youtu.be/ArkDQvI_OPE''))"
    by (simp add: status_ok_def getMP3Info_def ytmp3free2_def example_id net_primary_def)
  show ?thesis
    using C4_success_has_title_and_mp3 [of "fst (getMP3Info net_primary ''https://youtu.be/ArkDQvI_OPE'')"
        net_primary "''https://youtu.be/ArkDQvI_OPE''", OF _ 1]
    by simp
qed

lemma no_link_fails:
  "\<not> has_own data ''link'' \<Longrightarrow>
     \<not> truthy data \<or> \<not> truthy (get_prop data ''title'') \<or> \<not> truthy (get_prop data ''link'')"
  by (cases data) (simp_all split: option.splits)

lemma no_url_fails:
  "\<not> has_own data ''url'' \<Longrightarrow> \<not> (truthy data \<and> truthy (get_prop data ''url''))"
  by (cases data) (simp_all split: option.splits)

text \<open>
  C5. A response of the upstream without the URL field (\<open>link\<close> for ytmp3free.cc, \<open>url\<close>
  for vevioz.com) gives the failure object of the strategy, whatever else the response
  holds.
\<close>

theorem C5_missing_url_field:
  "(\<not> has_own data ''link'' \<and> net (''https://ytmp3free.cc/@api/json/mp3/'' @ encodeURIComponent url) = Inr data
      \<longrightarrow> ytmp3free net url
        = JObj [(''status'', JBool False), (''msg'', JStr ''Scrape failed or invalid YouTube URL'')])
   \<and> (\<not> has_own data ''link'' \<and> extractVideoId2 url = Some vid
        \<and> net (''https://ytmp3free.cc/@api/json/mp3/'' @ vid) = Inr data
      \<longrightarrow> fst (ytmp3free2 net url)
        = JObj [(''status'', JBool False), (''msg'', JStr ''No data received from service''), (''rawData'', data)])
   \<and> (\<not> has_own data ''url''
        \<and> net (''https://api.vevioz.com/api/button/mp3/'' @ id_text (extractVideoId2 url)) = Inr data
      \<longrightarrow> alternativeService net url
        = JObj [(''status'', JBool False), (''msg'', JStr ''Alternative service failed'')])"
  using no_link_fails [of data] no_url_fails [of data]
  by (auto simp: ytmp3free_def ytmp3free2_def alternativeService_def Let_def)

theorem C5_missing_url_field_witness:
  "ytmp3free (\<lambda>u. Inr (JObj [(''title'', JStr ''T''), (''img'', JStr ''i.jpg''), (''duration'', JNum 3)]))
      ''https://youtu.be/ArkDQvI_OPE''
     = JObj [(''status'', JBool False), (''msg'', JStr ''Scrape failed or invalid YouTube URL'')]
   \<and> fst (ytmp3free2 (\<lambda>u. Inr (JObj [(''title'', JStr ''T''), (''img'', JStr ''i.jpg''), (''duration'', JNum 3)]))
      ''https://youtu.be/ArkDQvI_OPE'')
     = JObj [(''status'', JBool False), (''msg'', JStr ''No data received from service''),
             (''rawData'', JObj [(''title'', JStr ''T''), (''img'', JStr ''i.jpg''), (''duration'', JNum 3)])]
   \<and> alternativeService (\<lambda>u. Inr (JObj [(''title'', JStr ''T''), (''img'', JStr ''i.jpg''), (''duration'', JNum 3)]))
      ''https://youtu.be/ArkDQvI_OPE''
     = JObj [(''status'', JBool False), (''msg'', JStr ''Alternative service failed'')]"
  using C5_missing_url_field [of "JObj [(''title'', JStr ''T''), (''img'', JStr ''i.jpg''), (''duration'', JNum 3)]"
      "\<lambda>u. Inr (JObj [(''title'', JStr ''T''), (''img'', JStr ''i.jpg''), (''duration'', JNum 3)])"
      "''https://youtu.be/ArkDQvI_OPE''" "''ArkDQvI_OPE''"] example_id
  by simp

section \<open>Claims about the catalogue scraper\<close>

lemma link_pass_entries: "link_pass es movies = movies @ concat (map link_entry es)"
  by (induction es arbitrary: movies) (simp_all add: link_entry_def Let_def split: option.splits)

lemma download_links_urls:
  "map dl_url (download_links es links) = map dl_url links @ concat (map link_url es)"
  by (induction es arbitrary: links) (simp_all add: link_url_def Let_def split: option.splits)

lemma str_includes_nonempty: "str_includes h (p # ps) \<Longrightarrow> h \<noteq> []"
  by (cases h) simp_all

text \<open>
  C6. When the first loop finds nothing and the page has a link whose \<open>href\<close> contains
  \<open>/movie/\<close> and whose trimmed text is longer than 5 characters, the second loop returns
  at least one entry, the one of that link among them; every entry of the second loop has
  no image and an empty description (an entry has no confidence field).
\<close>

theorem C6_secondary_pass:
  assumes "primary_pass (posts doc) [] = []"
    and "a \<in> set (anchors doc)" and "a_href a = Some h"
    and "str_includes h ''/movie/''" and "5 < length (trim (a_text a))"
  shows "search_movies doc = concat (map link_entry (anchors doc))
    \<and> search_movies doc \<noteq> []
    \<and> \<lparr>m_title = trim (a_text a), m_link = absolute h, m_image = None, m_description = [],
        m_year = extractYear (trim (a_text a))\<rparr> \<in> set (search_movies doc)
    \<and> (\<forall>m\<in>set (search_movies doc). m_image m = None \<and> m_description m = [])"
proof -
  have s: "search_movies doc = concat (map link_entry (anchors doc))"
    using assms(1) by (simp add: search_movies_def link_pass_entries)
  have h: "h \<noteq> []" using assms(4) by (rule str_includes_nonempty)
  have t: "trim (a_text a) \<noteq> []" using assms(5) by auto
  have e: "link_entry a = [\<lparr>m_title = trim (a_text a), m_link = absolute h, m_image = None,
      m_description = [], m_year = extractYear (trim (a_text a))\<rparr>]"
    using assms(3,4,5) h t by (simp add: link_entry_def)
  have m: "\<lparr>m_title = trim (a_text a), m_link = absolute h, m_image = None, m_description = [],
        m_year = extractYear (trim (a_text a))\<rparr> \<in> set (search_movies doc)"
    unfolding s using assms(2) e by (auto intro!: bexI [of _ a])
  have low: "\<forall>m\<in>set (search_movies doc). m_image m = None \<and> m_description m = []"
    unfolding s by (auto simp: link_entry_def split: option.splits if_splits)
  from m have "search_movies doc \<noteq> []" by auto
  with s m low show ?thesis by blast
qed

lemma trim_Titles: "trim '' Titles '' = ''Titles''"
  by (simp add: trim_def is_space_def code_def)

lemma trim_Title: "trim ''Title'' = ''Title''"
  by (simp add: trim_def is_space_def code_def)

lemma year_Titles: "extractYear ''Titles'' = None"
  by code_simp

theorem C6_secondary_pass_witness:
  "search_movies doc_six
     = [\<lparr>m_title = ''Titles'', m_link = ''https://sinhalasub.lk/movie/abc'', m_image = None,
          m_description = [], m_year = None\<rparr>]"
proof -
  have 1: "primary_pass (posts doc_six) [] = []" by (simp add: doc_six_def)
  have 2: "\<lparr>a_href = Some ''/movie/abc'', a_text = '' Titles ''\<rparr> \<in> set (anchors doc_six)"
    by (simp add: doc_six_def)
  have 3: "a_href \<lparr>a_href = Some ''/movie/abc'', a_text = '' Titles ''\<rparr> = Some ''/movie/abc''" by simp
  have 4: "str_includes ''/movie/abc'' ''/movie/''" by simp
  have 5: "5 < length (trim (a_text \<lparr>a_href = Some ''/movie/abc'', a_text = '' Titles ''\<rparr>))"
    by (simp add: trim_Titles)
  from C6_secondary_pass [OF 1 2 3 4 5]
  have "search_movies doc_six = concat (map link_entry (anchors doc_six))" by (rule conjunct1)
  then show ?thesis
    by (simp add: doc_six_def link_entry_def trim_Titles year_Titles absolute_def BASE_URL_def)
qed

theorem C6_length_five_counterexample:
  "primary_pass (posts doc_five) [] = []
   \<and> a_href (hd (anchors doc_five)) = Some ''/movie/abc''
   \<and> str_includes ''/movie/abc'' ''/movie/''
   \<and> length (trim (a_text (hd (anchors doc_five)))) = 5
   \<and> search_movies doc_five = []"
  by (simp add: doc_five_def search_movies_def trim_Title)

text \<open>
  C8. \<open>downloadLinks\<close> has one entry for every \<open>a\<close> element that passes the test of the
  loop, in page order, with the \<open>href\<close> as its \<open>url\<close>; nothing is removed, so the urls are
  distinct exactly when the \<open>href\<close>s of those elements are.
\<close>

theorem C8_download_links:
  "map dl_url (downloadLinks doc) = concat (map link_url (anchors doc))
   \<and> (distinct (map dl_url (downloadLinks doc)) \<longleftrightarrow> distinct (concat (map link_url (anchors doc))))"
  by (simp add: downloadLinks_def download_links_urls)

lemma doc_twice_links:
  "downloadLinks doc_twice =
     [\<lparr>dl_provider = ''download'', dl_url = ''https://mega.nz/x'', dl_type = ''mega''\<rparr>,
      \<lparr>dl_provider = ''mirror'', dl_url = ''https://mega.nz/x'', dl_type = ''mega''\<rparr>]"
  by code_simp

theorem C8_download_links_witness:
  "concat (map link_url (anchors doc_twice)) = [''https://mega.nz/x'', ''https://mega.nz/x'']"
  using C8_download_links [of doc_twice] by (simp add: doc_twice_links)

theorem C8_duplicate_counterexample:
  "map dl_url (downloadLinks doc_twice) = [''https://mega.nz/x'', ''https://mega.nz/x'']
   \<and> \<not> distinct (map dl_url (downloadLinks doc_twice))"
  by (simp add: doc_twice_links)

section \<open>Claims about stream delivery\<close>




lemma valid_url_nonempty: "isValidYouTubeUrl u \<Longrightarrow> u \<noteq> []"
proof
  assume "isValidYouTubeUrl u" and "u = []"
  moreover have "\<not> isValidYouTubeUrl []" by code_simp
  ultimately show False by simp
qed

lemma stream_start_fields:
  "\<not> headersSent (stream_start t)" "body (stream_start t) = []" "statusCode (stream_start t) = 200"
  "\<not> ended (stream_start t)" "\<not> destroyed (stream_start t)"
  by (simp_all add: stream_start_def setHeader_def new_response_def)

lemma api_download_streams:
  assumes "isValidYouTubeUrl u" and "valid_header_value (content_disposition (sanitize t))"
  shows "api_download (Some u) (Inr t) events = pipe_ffmpeg events (stream_start t, [])"
  using assms valid_url_nonempty [OF assms(1)] by (simp add: api_download_def stream_start_def)



text \<open>
  What \<open>/api/download\<close> does when the transcoder fails before it has produced a chunk:
  the pipe ends the response first, so the listener sends no JSON and the caller gets
  status 200 with an empty body.
\<close>

lemma api_download_transcoder_fails_first:
  assumes "isValidYouTubeUrl u" and "valid_header_value (content_disposition (sanitize t))"
  shows "body (fst (api_download (Some u) (Inr t) (Fail e # es))) = []"
    and "statusCode (fst (api_download (Some u) (Inr t) (Fail e # es))) = 200"
    and "ended (fst (api_download (Some u) (Inr t) (Fail e # es)))"
  unfolding api_download_streams [OF assms]
  by (simp_all add: stream_start_fields res_end_def Let_def)






end
